theory Spec2Isabelle
  imports Main "HOL-Library.Sublist" "HOL-Library.Monad_Syntax" "HOL-Library.Char_ord"
    "HOL-Library.List_Lexorder"
begin

section \<open>Strings of the log\<close>

text \<open>
  A JavaScript string is modelled as a \<^typ>\<open>string\<close>: a list of code units below 256
  (the Latin-1 range, which holds every character the log patterns name). On that range
  \<open>toLowerCase\<close> moves \<open>A-Z\<close> and the accented capitals \<open>0xC0-0xDE\<close> (without \<open>0xD7\<close>)
  up by 32, the class \<open>\s\<close> and \<open>trim\<close> know tab, line feed, vertical tab, form feed,
  carriage return, space and the no-break space \<open>0xA0\<close>, and \<open>\w\<close> is \<open>[A-Za-z0-9_]\<close>.
\<close>

definition isSpace :: "char \<Rightarrow> bool" where
  "isSpace c = (let n = (of_char c :: nat) in (9 \<le> n \<and> n \<le> 13) \<or> n = 32 \<or> n = 160)"

definition isDigit :: "char \<Rightarrow> bool" where
  "isDigit c = (let n = (of_char c :: nat) in 48 \<le> n \<and> n \<le> 57)"

definition isWord :: "char \<Rightarrow> bool" where
  "isWord c = (let n = (of_char c :: nat) in
     (48 \<le> n \<and> n \<le> 57) \<or> (65 \<le> n \<and> n \<le> 90) \<or> n = 95 \<or> (97 \<le> n \<and> n \<le> 122))"

definition lowerChar :: "char \<Rightarrow> char" where
  "lowerChar c = (let n = (of_char c :: nat) in
     if (65 \<le> n \<and> n \<le> 90) \<or> (192 \<le> n \<and> n \<le> 222 \<and> n \<noteq> 215)
     then char_of (n + 32) else c)"

definition toLowerCase :: "string \<Rightarrow> string" where
  "toLowerCase s = map lowerChar s"

definition trim :: "string \<Rightarrow> string" where
  "trim s = rev (dropWhile isSpace (rev (dropWhile isSpace s)))"

text \<open>\<open>s.startsWith(p)\<close>, returning what follows the prefix.\<close>

fun stripPrefix :: "string \<Rightarrow> string \<Rightarrow> string option" where
  "stripPrefix [] s = Some s"
| "stripPrefix (p # ps) [] = None"
| "stripPrefix (p # ps) (c # cs) = (if p = c then stripPrefix ps cs else None)"

text \<open>\<open>hay.includes(needle)\<close>: the needle starts at some position of the haystack.\<close>

fun includesStr :: "string \<Rightarrow> string \<Rightarrow> bool" where
  "includesStr [] needle = (needle = [])"
| "includesStr (c # cs) needle =
     (case stripPrefix needle (c # cs) of Some _ \<Rightarrow> True | None \<Rightarrow> includesStr cs needle)"

section \<open>Zone matcher\<close>

text \<open>
  \<open>name.replace(/^the\s+/, '')\<close>: when the string starts with \<open>the\<close> and at least one
  white-space character, that prefix and the whole white-space run after it are removed
  (the \<open>+\<close> is greedy and nothing follows it in the pattern); otherwise nothing changes.
\<close>

definition replaceLeadingThe :: "string \<Rightarrow> string" where
  "replaceLeadingThe s =
     (case stripPrefix ''the'' s of
        None \<Rightarrow> s
      | Some r \<Rightarrow> (case r of [] \<Rightarrow> s
                   | c # cs \<Rightarrow> if isSpace c then dropWhile isSpace cs else s))"

text \<open>\<open>normalizeZone(name) = name.toLowerCase().replace(/^the\s+/, '').trim()\<close>\<close>

definition normalizeZone :: "string \<Rightarrow> string" where
  "normalizeZone name = trim (replaceLeadingThe (toLowerCase name))"

text \<open>
  \<open>zoneMatchesFilters(zoneName, filters)\<close>. The zone name is \<open>null\<close> before the first
  zone-entry line, hence the option; \<open>!zoneName\<close> holds for \<open>null\<close> and for the empty string.
\<close>

definition zoneMatchesFilters :: "string option \<Rightarrow> string list \<Rightarrow> bool" where
  "zoneMatchesFilters zoneName filters =
     (case zoneName of
        None \<Rightarrow> False
      | Some z \<Rightarrow>
          if z = [] \<or> filters = [] then False
          else (let norm = normalizeZone z
                in list_ex (\<lambda>f. includesStr norm f \<or> includesStr f norm) filters))"

text \<open>
  Every caller hands \<open>zoneMatchesFilters\<close> a filter list that went through
  \<open>normalizeZone\<close> first (\<open>zones.map(normalizeZone)\<close> in \<open>parseLog\<close>,
  \<open>APPROVED_ZONES.map(normalizeZone)\<close>, \<open>approvedZones.map(normalizeZone)\<close> in the
  watcher). \<open>matches\<close> is that composition.
\<close>

definition matches :: "string \<Rightarrow> string list \<Rightarrow> bool" where
  "matches zoneName filterSet = zoneMatchesFilters (Some zoneName) (map normalizeZone filterSet)"

section \<open>Dates\<close>

text \<open>
  A value that the scanners hold in a variable of type \<open>Date\<close>: \<open>null\<close> (the block time
  before the first roster block), an invalid \<open>Date\<close> (time value \<open>NaN\<close>), or a \<open>Date\<close> with
  its time value in milliseconds since the epoch.
\<close>

datatype jsdate = Null | Invalid | Valid int

datatype error = RangeError | TypeError

text \<open>The number that \<open><\<close> and \<open>>\<close> compare: \<open>null\<close> counts as 0, \<open>NaN\<close> compares false.\<close>

definition timeOf :: "jsdate \<Rightarrow> int option" where
  "timeOf d = (case d of Null \<Rightarrow> Some 0 | Invalid \<Rightarrow> None | Valid t \<Rightarrow> Some t)"

definition dateLess :: "jsdate \<Rightarrow> jsdate \<Rightarrow> bool" where
  "dateLess a b =
     (case timeOf a of None \<Rightarrow> False
      | Some x \<Rightarrow> (case timeOf b of None \<Rightarrow> False | Some y \<Rightarrow> x < y))"

text \<open>The date algorithms of the language standard, on integers.\<close>

definition msPerDay :: int where
  "msPerDay = 86400000"

definition DayFromYear :: "int \<Rightarrow> int" where
  "DayFromYear y =
     365 * (y - 1970) + (y - 1969) div 4 - (y - 1901) div 100 + (y - 1601) div 400"

definition InLeapYear :: "int \<Rightarrow> bool" where
  "InLeapYear y = (y mod 4 = 0 \<and> (y mod 100 \<noteq> 0 \<or> y mod 400 = 0))"

definition monthStart :: "int \<Rightarrow> int \<Rightarrow> int" where
  "monthStart y mn =
     [0, 31, 59, 90, 120, 151, 181, 212, 243, 273, 304, 334] ! nat mn
     + (if InLeapYear y \<and> 2 \<le> mn then 1 else 0)"

definition MakeDay :: "int \<Rightarrow> int \<Rightarrow> int \<Rightarrow> int" where
  "MakeDay yr month dt =
     (let ym = yr + month div 12; mn = month mod 12
      in DayFromYear ym + monthStart ym mn + dt - 1)"

definition MakeTime :: "int \<Rightarrow> int \<Rightarrow> int \<Rightarrow> int \<Rightarrow> int" where
  "MakeTime hour minute sec ms = hour * 3600000 + minute * 60000 + sec * 1000 + ms"

definition MakeDate :: "int \<Rightarrow> int \<Rightarrow> int" where
  "MakeDate dy tm = dy * msPerDay + tm"

definition TimeClip :: "int \<Rightarrow> int option" where
  "TimeClip t = (if 8640000000000000 < \<bar>t\<bar> then None else Some t)"

definition fullYear :: "int \<Rightarrow> int" where
  "fullYear y = (if 0 \<le> y \<and> y \<le> 99 then 1900 + y else y)"

text \<open>
  \<open>Date.UTC(year, month, day, hour, minute, second)\<close>. The month is \<open>MONTHS[mon]\<close>, which
  is \<open>undefined\<close> for a word that is no month name: \<open>None\<close> here, and the result is \<open>NaN\<close>.
\<close>

definition DateUTC :: "int \<Rightarrow> int option \<Rightarrow> int \<Rightarrow> int \<Rightarrow> int \<Rightarrow> int \<Rightarrow> int option" where
  "DateUTC yr month dt hour minute sec =
     (case month of
        None \<Rightarrow> None
      | Some m \<Rightarrow> TimeClip (MakeDate (MakeDay (fullYear yr) m dt) (MakeTime hour minute sec 0)))"

definition ofTime :: "int option \<Rightarrow> jsdate" where
  "ofTime t = (case t of None \<Rightarrow> Invalid | Some v \<Rightarrow> Valid v)"

text \<open>
  \<open>new Date(year, month, day, hour, minute, second)\<close> reads the fields in the time zone of
  the machine that runs the parser. \<open>hostUTC\<close> is that machine's conversion of a local time
  value to UTC (the standard's \<open>UTC(t)\<close>).
\<close>

definition newDate :: "(int \<Rightarrow> int) \<Rightarrow> int \<Rightarrow> int option \<Rightarrow> int \<Rightarrow> int \<Rightarrow> int \<Rightarrow> int \<Rightarrow> jsdate" where
  "newDate hostUTC yr month dt hour minute sec =
     (case month of
        None \<Rightarrow> Invalid
      | Some m \<Rightarrow>
          ofTime (TimeClip (hostUTC
            (MakeDate (MakeDay (fullYear yr) m dt) (MakeTime hour minute sec 0)))))"

definition HourFromTime :: "int \<Rightarrow> int" where
  "HourFromTime t = (t div 3600000) mod 24"

definition WeekDay :: "int \<Rightarrow> int" where
  "WeekDay t = (t div msPerDay + 4) mod 7"

text \<open>Year, month (1 to 12) and day of the month of a day number.\<close>

definition civilFromDays :: "int \<Rightarrow> int \<times> int \<times> int" where
  "civilFromDays z0 =
     (let z = z0 + 719468;
          era = z div 146097;
          doe = z mod 146097;
          yoe = (doe - doe div 1460 + doe div 36524 - doe div 146096) div 365;
          doy = doe - (365 * yoe + yoe div 4 - yoe div 100);
          mp = (5 * doy + 2) div 153;
          d = doy - (153 * mp + 2) div 5 + 1;
          m = (if mp < 10 then mp + 3 else mp - 9);
          y = yoe + era * 400 + (if m \<le> 2 then 1 else 0)
      in (y, m, d))"

definition digitChar :: "int \<Rightarrow> char" where
  "digitChar d = char_of (48 + nat d)"

fun padNum :: "nat \<Rightarrow> int \<Rightarrow> string" where
  "padNum 0 n = []"
| "padNum (Suc k) n = padNum k (n div 10) @ [digitChar (n mod 10)]"

text \<open>
  \<open>d.toISOString()\<close> for a valid time value: four year digits from year 0 to 9999, a sign
  and six digits otherwise.
\<close>

definition isoString :: "int \<Rightarrow> string" where
  "isoString t =
     (case civilFromDays (t div msPerDay) of
        (y, m, d) \<Rightarrow>
          (if 0 \<le> y \<and> y \<le> 9999 then padNum 4 y
           else (if y < 0 then ''-'' else ''+'') @ padNum 6 \<bar>y\<bar>)
          @ ''-'' @ padNum 2 m @ ''-'' @ padNum 2 d @ ''T''
          @ padNum 2 (HourFromTime t) @ '':'' @ padNum 2 ((t div 60000) mod 60)
          @ '':'' @ padNum 2 ((t div 1000) mod 60) @ ''.'' @ padNum 3 (t mod 1000) @ ''Z'')"

definition toISOString :: "jsdate \<Rightarrow> error + string" where
  "toISOString d =
     (case d of Null \<Rightarrow> Inl TypeError | Invalid \<Rightarrow> Inl RangeError | Valid t \<Rightarrow> Inr (isoString t))"

section \<open>Timestamp normalizer\<close>

text \<open>
  What \<open>Intl.DateTimeFormat('en-US', {timeZone, ..., hour12: false}).formatToParts\<close> shows for
  an instant: the numeric fields of the wall clock in the zone. The zone is a parameter of
  the model, the function from a time value to the fields shown.
\<close>

record tzparts =
  pyear :: int
  pmonth :: int
  pday :: int
  phour :: int
  pminute :: int
  psecond :: int

type_synonym timezone = "int \<Rightarrow> tzparts"

text \<open>A zone whose wall clock is always \<open>off\<close> milliseconds ahead of UTC (no DST rule).\<close>

definition fixedOffsetZone :: "int \<Rightarrow> timezone" where
  "fixedOffsetZone off t =
     (let lt = t + off in
      case civilFromDays (lt div msPerDay) of
        (y, m, d) \<Rightarrow>
          \<lparr>pyear = y, pmonth = m, pday = d, phour = HourFromTime lt,
           pminute = (lt div 60000) mod 60, psecond = (lt div 1000) mod 60\<rparr>)"

text \<open>
  The wall clock of \<open>America/New_York\<close> for the instants of the year 2026, as the time
  zone database has it: five hours behind UTC, and four hours behind from 07:00 UTC on
  8 March until 06:00 UTC on 1 November.
\<close>

definition newYork2026 :: timezone where
  "newYork2026 t =
     (if 1772953200000 \<le> t \<and> t < 1793512800000 then fixedOffsetZone (- 14400000) t
      else fixedOffsetZone (- 18000000) t)"

text \<open>
  The wall clock shown for the candidate instant, read back as if it were UTC
  (\<open>localViewUTC\<close>); an hour shown as 24 is midnight.
\<close>

definition localViewUTC :: "timezone \<Rightarrow> int \<Rightarrow> int option" where
  "localViewUTC tz fakeUTC =
     (let parts = tz fakeUTC;
          h = (if phour parts = 24 then 0 else phour parts)
      in DateUTC (pyear parts) (Some (pmonth parts - 1)) (pday parts) h
           (pminute parts) (psecond parts))"

text \<open>
  \<open>localToUTC\<close>. \<open>formatToParts\<close> throws a \<open>RangeError\<close> on an invalid date; arithmetic
  on \<open>NaN\<close> gives \<open>NaN\<close>, and \<open>new Date\<close> clips its argument.
\<close>

definition localToUTC ::
  "timezone \<Rightarrow> int \<Rightarrow> int option \<Rightarrow> int \<Rightarrow> int \<Rightarrow> int \<Rightarrow> int \<Rightarrow> error + jsdate" where
  "localToUTC tz yr month dt hour minute sec =
     (case DateUTC yr month dt hour minute sec of
        None \<Rightarrow> Inl RangeError
      | Some fakeUTC \<Rightarrow>
          (case localViewUTC tz fakeUTC of
             None \<Rightarrow> Inr Invalid
           | Some lv \<Rightarrow>
               (let offset = fakeUTC - lv
                in Inr (ofTime (TimeClip (fakeUTC + offset))))))"

section \<open>Line classifier\<close>

text \<open>
  Each regular expression of the parser becomes a function that returns the captured
  groups, or \<open>None\<close> where \<open>match\<close> returns \<open>null\<close>. The patterns leave the matcher no
  choice: a greedy run is always followed by a character outside the run's class, so
  giving characters back can never turn a failure into a match.
\<close>

definition isLineTerminator :: "char \<Rightarrow> bool" where
  "isLineTerminator c = (c = CHR 0x0A \<or> c = CHR 0x0D)"

definition lit :: "char \<Rightarrow> string \<Rightarrow> string option" where
  "lit c s = (case s of [] \<Rightarrow> None | x # r \<Rightarrow> if x = c then Some r else None)"

text \<open>\<open>n\<close> characters of a class: \<open>\w{3}\<close>, \<open>\d{2}\<close>, \<open>\d{4}\<close>.\<close>

definition takeN :: "(char \<Rightarrow> bool) \<Rightarrow> nat \<Rightarrow> string \<Rightarrow> (string \<times> string) option" where
  "takeN P n s =
     (if n \<le> length s \<and> list_all P (take n s) then Some (take n s, drop n s) else None)"

text \<open>\<open>\d{1,2}\<close>: two digits where there are two.\<close>

definition takeDay :: "string \<Rightarrow> (string \<times> string) option" where
  "takeDay s = (case takeN isDigit 2 s of Some r \<Rightarrow> Some r | None \<Rightarrow> takeN isDigit 1 s)"

text \<open>\<open> +\<close>: one space or more.\<close>

definition spaces1 :: "string \<Rightarrow> string option" where
  "spaces1 s =
     (case lit (CHR '' '') s of
        None \<Rightarrow> None
      | Some r \<Rightarrow> Some (dropWhile (\<lambda>c. c = CHR '' '') r))"

definition stripSuffix :: "string \<Rightarrow> string \<Rightarrow> string option" where
  "stripSuffix suf s = map_option rev (stripPrefix (rev suf) (rev s))"

record stampParts =
  mon :: string
  day :: string
  hh :: string
  mi :: string
  ss :: string
  year :: string

text \<open>
  \<open>(\w{3}) +(\d{1,2}) (\d{2}):(\d{2}):(\d{2}) (\d{4})\<close> at the start of a string, with what
  follows the match.
\<close>

definition matchStamp :: "string \<Rightarrow> (stampParts \<times> string) option" where
  "matchStamp s0 = do {
     (m, s1) \<leftarrow> takeN isWord 3 s0;
     s2 \<leftarrow> spaces1 s1;
     (d, s3) \<leftarrow> takeDay s2;
     s4 \<leftarrow> lit (CHR '' '') s3;
     (h, s5) \<leftarrow> takeN isDigit 2 s4;
     s6 \<leftarrow> lit (CHR '':'') s5;
     (n, s7) \<leftarrow> takeN isDigit 2 s6;
     s8 \<leftarrow> lit (CHR '':'') s7;
     (c, s9) \<leftarrow> takeN isDigit 2 s8;
     s10 \<leftarrow> lit (CHR '' '') s9;
     (y, s11) \<leftarrow> takeN isDigit 4 s10;
     Some (\<lparr>mon = m, day = d, hh = h, mi = n, ss = c, year = y\<rparr>, s11)
   }"

text \<open>
  \<open>LINE_RE = /^\[(\w{3} \w{3} +\d{1,2} \d{2}:\d{2}:\d{2} \d{4})\] (.*)$/\<close>: the timestamp
  text and the content. The dot matches no line terminator.
\<close>

definition matchLine :: "string \<Rightarrow> (string \<times> string) option" where
  "matchLine line = do {
     s1 \<leftarrow> lit (CHR ''['') line;
     (w, s2) \<leftarrow> takeN isWord 3 s1;
     s3 \<leftarrow> lit (CHR '' '') s2;
     (p, s4) \<leftarrow> matchStamp s3;
     s5 \<leftarrow> lit (CHR '']'') s4;
     content \<leftarrow> lit (CHR '' '') s5;
     if list_ex isLineTerminator content then None
     else Some (take (length s1 - length s4) s1, content)
   }"

text \<open>
  \<open>ts.match(/(\w{3}) +(\d{1,2}) (\d{2}):(\d{2}):(\d{2}) (\d{4})/)\<close> has no anchor: the
  first position of the string where the pattern matches.
\<close>

fun searchStamp :: "string \<Rightarrow> stampParts option" where
  "searchStamp [] = None"
| "searchStamp (c # cs) =
     (case matchStamp (c # cs) of Some (p, r) \<Rightarrow> Some p | None \<Rightarrow> searchStamp cs)"

definition MONTHS :: "string \<Rightarrow> int option" where
  "MONTHS = map_of
     [(''Jan'', 0), (''Feb'', 1), (''Mar'', 2), (''Apr'', 3), (''May'', 4), (''Jun'', 5),
      (''Jul'', 6), (''Aug'', 7), (''Sep'', 8), (''Oct'', 9), (''Nov'', 10), (''Dec'', 11)]"

text \<open>The integer that a string of decimal digits writes.\<close>

definition num :: "string \<Rightarrow> int" where
  "num ds = foldl (\<lambda>n c. 10 * n + (int (of_char c) - 48)) 0 ds"

text \<open>
  A JavaScript number that came from a string of digits: an integer that is a double, or
  \<open>Infinity\<close>. \<open>numberValue\<close> is the number value of an integer that is not negative:
  the double nearest to it, the even significand on a tie, and \<open>Infinity\<close> where the
  rounded value leaves the range of the doubles. A significand has 53 binary digits,
  and \<open>2^53 = 9007199254740992\<close>.
\<close>

datatype jsnumber = Num int | Infinity

fun bitLength :: "int \<Rightarrow> nat" where
  "bitLength n = (if n \<le> 0 then 0 else Suc (bitLength (n div 2)))"

definition numberValue :: "int \<Rightarrow> jsnumber" where
  "numberValue n =
     (if n < 9007199254740992 then Num n
      else (let e = bitLength n - 53;
                q = n div 2 ^ e;
                r = n mod 2 ^ e;
                h = 2 ^ (e - 1);
                v = (if h < r \<or> (r = h \<and> odd q) then q + 1 else q) * 2 ^ e
            in if 2 ^ 1024 \<le> v then Infinity else Num v))"

text \<open>
  \<open>parseInt(digits, 10)\<close> and the unary plus \<open>+digits\<close> on a string of decimal digits,
  however long: the number value of the integer that the digits write.
\<close>

definition parseInt :: "string \<Rightarrow> jsnumber" where
  "parseInt ds = numberValue (num ds)"

definition unaryPlus :: "string \<Rightarrow> jsnumber" where
  "unaryPlus ds = numberValue (num ds)"

text \<open>
  The numbers \<open>+year\<close>, \<open>+day\<close>, \<open>+h\<close>, \<open>+min\<close> and \<open>+s\<close> of a timestamp, where
  all of them are finite. (They are: the pattern gives each group four digits at most.)
\<close>

definition finiteNumber :: "jsnumber \<Rightarrow> int option" where
  "finiteNumber x = (case x of Num n \<Rightarrow> Some n | Infinity \<Rightarrow> None)"

definition stampNumbers :: "stampParts \<Rightarrow> (int \<times> int \<times> int \<times> int \<times> int) option" where
  "stampNumbers p = do {
     y \<leftarrow> finiteNumber (unaryPlus (year p));
     d \<leftarrow> finiteNumber (unaryPlus (day p));
     h \<leftarrow> finiteNumber (unaryPlus (hh p));
     n \<leftarrow> finiteNumber (unaryPlus (mi p));
     s \<leftarrow> finiteNumber (unaryPlus (ss p));
     Some (y, d, h, n, s)
   }"

text \<open>
  \<open>parseEQDate(ts)\<close>: \<open>None\<close> is \<open>null\<close>. A date made from a number that is not finite
  is invalid.
\<close>

definition parseEQDate :: "(int \<Rightarrow> int) \<Rightarrow> string \<Rightarrow> jsdate option" where
  "parseEQDate hostUTC ts =
     (case searchStamp ts of
        None \<Rightarrow> None
      | Some p \<Rightarrow>
          (case stampNumbers p of
             None \<Rightarrow> Some Invalid
           | Some (y, d, h, n, s) \<Rightarrow> Some (newDate hostUTC y (MONTHS (mon p)) d h n s)))"

text \<open>
  \<open>parseEQDateUTC(tsStr, timezone)\<close>. With a number that is not finite the candidate
  of \<open>localToUTC\<close> is an invalid date, on which \<open>formatToParts\<close> throws.
\<close>

definition parseEQDateUTC :: "timezone \<Rightarrow> string \<Rightarrow> error + jsdate option" where
  "parseEQDateUTC tz tsStr =
     (case searchStamp tsStr of
        None \<Rightarrow> Inr None
      | Some p \<Rightarrow>
          (case stampNumbers p of
             None \<Rightarrow> Inl RangeError
           | Some (y, d, h, n, s) \<Rightarrow>
               (case localToUTC tz y (MONTHS (mon p)) d h n s of
                  Inl e \<Rightarrow> Inl e
                | Inr dt \<Rightarrow> Inr (Some dt))))"

text \<open>\<open>ZONE_ENTRY_RE = /^You have entered (.+)\.$/\<close>\<close>

definition matchZoneEntry :: "string \<Rightarrow> string option" where
  "matchZoneEntry content = do {
     r \<leftarrow> stripPrefix ''You have entered '' content;
     z \<leftarrow> stripSuffix ''.'' r;
     if z = [] \<or> list_ex isLineTerminator z then None else Some z
   }"

text \<open>\<open>WHO_FOOTER_RE = /^There are \d+ players in (.+)\.$/\<close>\<close>

definition matchWhoFooter :: "string \<Rightarrow> string option" where
  "matchWhoFooter content = do {
     r \<leftarrow> stripPrefix ''There are '' content;
     if takeWhile isDigit r = [] then None
     else do {
       r2 \<leftarrow> stripPrefix '' players in '' (dropWhile isDigit r);
       z \<leftarrow> stripSuffix ''.'' r2;
       if z = [] \<or> list_ex isLineTerminator z then None else Some z
     }
   }"

text \<open>\<open>SELF_LOOT_RE = /^--You have looted a (.+?)\.--$/\<close>: the item name.\<close>

definition matchSelfLoot :: "string \<Rightarrow> string option" where
  "matchSelfLoot content = do {
     r \<leftarrow> stripPrefix ''--You have looted a '' content;
     item \<leftarrow> stripSuffix ''.--'' r;
     if item = [] \<or> list_ex isLineTerminator item then None else Some item
   }"

text \<open>The class \<open>[\w`'-]\<close> of a name.\<close>

definition isNameChar :: "char \<Rightarrow> bool" where
  "isNameChar c = (isWord c \<or> c = CHR 0x60 \<or> c = CHR 0x27 \<or> c = CHR ''-'')"

text \<open>
  \<open>OTHER_LOOT_RE = /^--([\w`'-]+) has looted a (.+?)\.--$/\<close>: the player and the item.
\<close>

definition matchOtherLoot :: "string \<Rightarrow> (string \<times> string) option" where
  "matchOtherLoot content = do {
     r \<leftarrow> stripPrefix ''--'' content;
     if takeWhile isNameChar r = [] then None
     else do {
       r2 \<leftarrow> stripPrefix '' has looted a '' (dropWhile isNameChar r);
       item \<leftarrow> stripSuffix ''.--'' r2;
       if item = [] \<or> list_ex isLineTerminator item then None
       else Some (takeWhile isNameChar r, item)
     }
   }"

section \<open>Roster entries\<close>

record player =
  name :: string
  level :: "jsnumber option"
  cls :: "string option"
  race :: "string option"
  guild :: "string option"

text \<open>
  An optional group \<open>(?:\s+\(([^)]+)\))?\<close> or \<open>(?:\s+<([^>]+)>)?\<close>: the capture, or
  \<open>None\<close> for \<open>undefined\<close>, and what follows.
\<close>

definition optGroup :: "char \<Rightarrow> char \<Rightarrow> string \<Rightarrow> string option \<times> string" where
  "optGroup opn clo s =
     (case s of
        [] \<Rightarrow> (None, s)
      | c # cs \<Rightarrow>
          if \<not> isSpace c then (None, s)
          else (case lit opn (dropWhile isSpace cs) of
                  None \<Rightarrow> (None, s)
                | Some r \<Rightarrow>
                    (let body = takeWhile (\<lambda>x. x \<noteq> clo) r;
                         rest = dropWhile (\<lambda>x. x \<noteq> clo) r
                     in if body = [] \<or> rest = [] then (None, s) else (Some body, tl rest))))"

text \<open>
  The first group of \<open>WHO_PLAYER_RE\<close>, \<open>\[(\d+ [^\]]+|ANONYMOUS)\] \<close>, already split as the
  parser splits it: \<open>None\<close> for \<open>ANONYMOUS\<close>, else the digits and the text after the first
  space, and what follows the group.
\<close>

definition matchLevelClass :: "string \<Rightarrow> ((string \<times> string) option \<times> string) option" where
  "matchLevelClass content = do {
     r \<leftarrow> lit (CHR ''['') content;
     if takeWhile isDigit r \<noteq> [] then do {
       r2 \<leftarrow> lit (CHR '' '') (dropWhile isDigit r);
       if takeWhile (\<lambda>x. x \<noteq> CHR '']'') r2 = [] then None
       else do {
         r3 \<leftarrow> stripPrefix ''] '' (dropWhile (\<lambda>x. x \<noteq> CHR '']'') r2);
         Some (Some (takeWhile isDigit r, takeWhile (\<lambda>x. x \<noteq> CHR '']'') r2), r3)
       }
     }
     else do {
       r3 \<leftarrow> stripPrefix ''ANONYMOUS] '' r;
       Some (None, r3)
     }
   }"

text \<open>
  \<open>WHO_PLAYER_RE\<close> and the fields the parser builds from its groups:
  \<open>parseInt(parts[0], 10) || null\<close> (a level 0 becomes \<open>null\<close>),
  \<open>parts.slice(1).join(' ') || null\<close>, \<open>race || null\<close>, \<open>guild || null\<close>.
\<close>

definition matchWhoPlayer :: "string \<Rightarrow> player option" where
  "matchWhoPlayer content = do {
     (levelClass, r) \<leftarrow> matchLevelClass content;
     if takeWhile isNameChar r = [] then None
     else
       (case optGroup (CHR ''('') (CHR '')'') (dropWhile isNameChar r) of
          (rc, r2) \<Rightarrow>
            (case optGroup (CHR ''<'') (CHR ''>'') r2 of
               (gd, r3) \<Rightarrow>
                 Some \<lparr>name = takeWhile isNameChar r,
                       level = (case levelClass of
                                  None \<Rightarrow> None
                                | Some (ds, c) \<Rightarrow>
                                    if parseInt ds = Num 0 then None else Some (parseInt ds)),
                       cls = (case levelClass of
                                None \<Rightarrow> None
                              | Some (ds, c) \<Rightarrow> if c = [] then None else Some c),
                       race = rc, guild = gd\<rparr>))
   }"

section \<open>Attendance aggregator\<close>

text \<open>An attendance record \<open>{ ...p, firstSeen, lastSeen }\<close>.\<close>

record participant = player +
  firstSeen :: jsdate
  lastSeen :: jsdate

text \<open>
  A JavaScript \<open>Map\<close> keeps its keys in insertion order: an association list, where
  \<open>get\<close> is \<^const>\<open>map_of\<close>, \<open>set\<close> on a new key appends, and a change to the object
  that \<open>get\<close> returned changes the entry in place.
\<close>

type_synonym attendance = "(string \<times> participant) list"

fun mapAdjust :: "'k \<Rightarrow> ('v \<Rightarrow> 'v) \<Rightarrow> ('k \<times> 'v) list \<Rightarrow> ('k \<times> 'v) list" where
  "mapAdjust k f [] = []"
| "mapAdjust k f (e # es) =
     (if fst e = k then (fst e, f (snd e)) # es else e # mapAdjust k f es)"

definition sighting :: "player \<Rightarrow> jsdate \<Rightarrow> participant" where
  "sighting p t =
     \<lparr>name = name p, level = level p, cls = cls p, race = race p, guild = guild p,
      firstSeen = t, lastSeen = t\<rparr>"

text \<open>
  The \<open>else\<close> branch of the flush loop in \<open>parseLog\<close> and \<open>autoParseLog\<close>:
  \<open>if (t < existing.firstSeen) existing.firstSeen = t;
   if (t > existing.lastSeen) existing.lastSeen = t;\<close>
\<close>

definition widen :: "jsdate \<Rightarrow> participant \<Rightarrow> participant" where
  "widen t existing =
     (let e1 = (if dateLess t (firstSeen existing) then existing\<lparr>firstSeen := t\<rparr> else existing)
      in if dateLess (lastSeen e1) t then e1\<lparr>lastSeen := t\<rparr> else e1)"

text \<open>The body of the loop \<open>for (const p of whoPlayers)\<close> of both batch parsers.\<close>

definition upsert :: "jsdate \<Rightarrow> attendance \<Rightarrow> player \<Rightarrow> attendance" where
  "upsert t am p =
     (let key = toLowerCase (name p) in
      case map_of am key of
        None \<Rightarrow> am @ [(key, sighting p t)]
      | Some existing \<Rightarrow> mapAdjust key (widen t) am)"

text \<open>
  The watcher's loop has a shorter \<open>else\<close> branch:
  \<open>if (this.whoBlockUTC > existing.lastSeen) existing.lastSeen = this.whoBlockUTC;\<close>
\<close>

definition widenLive :: "jsdate \<Rightarrow> participant \<Rightarrow> participant" where
  "widenLive t existing =
     (if dateLess (lastSeen existing) t then existing\<lparr>lastSeen := t\<rparr> else existing)"

definition upsertLive :: "jsdate \<Rightarrow> attendance \<Rightarrow> player \<Rightarrow> attendance" where
  "upsertLive t am p =
     (let key = toLowerCase (name p) in
      case map_of am key of
        None \<Rightarrow> am @ [(key, sighting p t)]
      | Some existing \<Rightarrow> mapAdjust key (widenLive t) am)"

section \<open>Batch scanner: \<open>parseLog\<close>\<close>

record lootEvent =
  playerName :: "string option"
  itemName :: string
  timestamp :: jsdate
  zone :: "string option"

record scanState =
  currentZone :: "string option"
  inWhoBlock :: bool
  whoBlockTime :: jsdate
  whoPlayers :: "player list"

record collectState = scanState +
  attendanceMap :: attendance
  lootEvents :: "lootEvent list"

record batchState = collectState +
  lineCount :: nat

record owner =
  characterName :: "string option"

record batchOpts = owner +
  startTime :: jsdate
  endTime :: jsdate
  zones :: "string list"

definition whoStart :: string where
  "whoStart = ''Players on EverQuest:''"

definition whoSeparator :: string where
  "whoSeparator = ''---------------------------''"

text \<open>A line inside a roster block (\<open>if (inWhoBlock) { ... continue; }\<close>).\<close>

definition whoLine :: "string list \<Rightarrow> batchState \<Rightarrow> string \<Rightarrow> batchState" where
  "whoLine zoneFilters s content =
     (if content = whoSeparator then s
      else
        (case matchWhoFooter content of
           Some whoZone \<Rightarrow>
             (if zoneMatchesFilters (Some whoZone) zoneFilters
              then s\<lparr>inWhoBlock := False,
                     attendanceMap :=
                       foldl (upsert (whoBlockTime s)) (attendanceMap s) (whoPlayers s)\<rparr>
              else s\<lparr>inWhoBlock := False\<rparr>)
         | None \<Rightarrow>
             (case matchWhoPlayer content of
                Some p \<Rightarrow> s\<lparr>whoPlayers := whoPlayers s @ [p]\<rparr>
              | None \<Rightarrow> s)))"

text \<open>A line outside a roster block: loot, when the current zone matches.\<close>

definition lootLine ::
  "string list \<Rightarrow> string option \<Rightarrow> batchState \<Rightarrow> jsdate \<Rightarrow> string \<Rightarrow> batchState" where
  "lootLine zoneFilters character s ts content =
     (if \<not> zoneMatchesFilters (currentZone s) zoneFilters then s
      else
        (case matchSelfLoot content of
           Some item \<Rightarrow>
             s\<lparr>lootEvents := lootEvents s @
                 [\<lparr>playerName = character, itemName = item, timestamp = ts,
                   zone = currentZone s\<rparr>]\<rparr>
         | None \<Rightarrow>
             (case matchOtherLoot content of
                Some (who, item) \<Rightarrow>
                  s\<lparr>lootEvents := lootEvents s @
                      [\<lparr>playerName = Some who, itemName = item, timestamp = ts,
                        zone = currentZone s\<rparr>]\<rparr>
              | None \<Rightarrow> s)))"

text \<open>The classification of a line that passed the time window.\<close>

definition classify :: "batchOpts \<Rightarrow> batchState \<Rightarrow> jsdate \<Rightarrow> string \<Rightarrow> batchState" where
  "classify opts s ts content =
     (case matchZoneEntry content of
        Some z \<Rightarrow> s\<lparr>currentZone := Some z, inWhoBlock := False\<rparr>
      | None \<Rightarrow>
          if content = whoStart
          then s\<lparr>inWhoBlock := True, whoBlockTime := ts, whoPlayers := []\<rparr>
          else if inWhoBlock s then whoLine (map normalizeZone (zones opts)) s content
          else lootLine (map normalizeZone (zones opts)) (characterName opts) s ts content)"

text \<open>
  One turn of the loop \<open>for await (const line of rl)\<close> of \<open>parseLog\<close>. The optional
  progress callback only receives \<open>lineCount\<close> and is left out.
\<close>

definition processLine :: "(int \<Rightarrow> int) \<Rightarrow> batchOpts \<Rightarrow> batchState \<Rightarrow> string \<Rightarrow> batchState" where
  "processLine hostUTC opts s0 line =
     (let s = s0\<lparr>lineCount := lineCount s0 + 1\<rparr> in
      case matchLine line of
        None \<Rightarrow> s
      | Some (tsStr, content) \<Rightarrow>
          (case parseEQDate hostUTC tsStr of
             None \<Rightarrow> s
           | Some ts \<Rightarrow>
               if dateLess ts (startTime opts) \<or> dateLess (endTime opts) ts then s
               else classify opts s ts content))"

definition batchInit :: batchState where
  "batchInit =
     \<lparr>currentZone = None, inWhoBlock = False, whoBlockTime = Null, whoPlayers = [],
      attendanceMap = [], lootEvents = [], lineCount = 0\<rparr>"

record batchResult =
  attendance :: "participant list"
  loot :: "lootEvent list"
  lines :: nat

definition batchReturn :: "batchState \<Rightarrow> batchResult" where
  "batchReturn s =
     \<lparr>attendance = map snd (attendanceMap s), loot = lootEvents s, lines = lineCount s\<rparr>"

text \<open>\<open>parseLog\<close> on the lines that \<open>readline\<close> hands out.\<close>

definition parseLog :: "(int \<Rightarrow> int) \<Rightarrow> batchOpts \<Rightarrow> string list \<Rightarrow> batchResult" where
  "parseLog hostUTC opts ls = batchReturn (foldl (processLine hostUTC opts) batchInit ls)"

section \<open>Raid window and approved zones\<close>

record raidRule =
  raidDays :: "int list"
  raidStartUTC :: int
  raidEndUTC :: int

text \<open>
  \<open>isInRaidWindow(utcDate)\<close> under a rule. \<open>getUTCHours\<close> and \<open>getUTCDay\<close> give \<open>NaN\<close>
  on an invalid date, which is in no set and compares false; on \<open>null\<close> they throw.
\<close>

definition inRaidWindow :: "raidRule \<Rightarrow> jsdate \<Rightarrow> error + bool" where
  "inRaidWindow rule utcDate =
     (case utcDate of
        Null \<Rightarrow> Inl TypeError
      | Invalid \<Rightarrow> Inr False
      | Valid t \<Rightarrow>
          Inr (WeekDay t \<in> set (raidDays rule)
               \<and> raidStartUTC rule \<le> HourFromTime t \<and> HourFromTime t < raidEndUTC rule))"

definition RAID_RULE :: raidRule where
  "RAID_RULE = \<lparr>raidDays = [0, 3, 5, 6], raidStartUTC = 13, raidEndUTC = 17\<rparr>"

definition isInRaidWindow :: "jsdate \<Rightarrow> error + bool" where
  "isInRaidWindow utcDate = inRaidWindow RAID_RULE utcDate"

definition APPROVED_ZONES :: "string list" where
  "APPROVED_ZONES =
     [''Plane of Fear'', ''Plane of Hate'', ''Sebilis'', ''Katta Castellum'',
      ''Kedge Keep'', ''Nagafen'' @ [CHR 0x27] @ ''s Lair'', ''Permafrost'',
      ''Veeshan'' @ [CHR 0x27] @ ''s Peak'',
      ''Timorous Deep'', ''Dreadlands'', ''Chardok'', ''Dragon Necropolis'',
      ''Kael Drakkel'', ''Temple of Veeshan'', ''Thurgadin'', ''Akheva Ruins'',
      ''Greig'' @ [CHR 0x27] @ ''s End'', ''Acrylia Caverns'', ''Ssraeshza Temple'',
      ''Umbral Plains'', ''Vex Thal'', ''The Deep'']"

text \<open>\<open>!!zoneName && zoneMatchesFilters(zoneName, filters)\<close>\<close>

definition approvedBy :: "string list \<Rightarrow> string option \<Rightarrow> bool" where
  "approvedBy filters zoneName =
     (case zoneName of
        None \<Rightarrow> False
      | Some z \<Rightarrow> z \<noteq> [] \<and> zoneMatchesFilters (Some z) filters)"

definition isApprovedZone :: "string option \<Rightarrow> bool" where
  "isApprovedZone zoneName = approvedBy (map normalizeZone APPROVED_ZONES) zoneName"

section \<open>Session segmenter: \<open>autoParseLog\<close>\<close>

record 'a session =
  date :: string
  dayName :: string
  roster :: 'a
  sessLoot :: "lootEvent list"
  sessZones :: "string list"
  sessFirstSeen :: jsdate
  sessLastSeen :: jsdate

record autoState = scanState +
  sessionMap :: "(string \<times> attendance session) list"
  linesRead :: nat

record autoOpts = owner +
  timezone :: timezone

definition DAY_NAMES :: "string list" where
  "DAY_NAMES = [''Sunday'', ''Monday'', ''Tuesday'', ''Wednesday'', ''Thursday'', ''Friday'',
                ''Saturday'']"

text \<open>\<open>Set.add\<close> on a set kept in insertion order.\<close>

definition setAdd :: "'a \<Rightarrow> 'a list \<Rightarrow> 'a list" where
  "setAdd x xs = (if x \<in> set xs then xs else xs @ [x])"

text \<open>
  \<open>getSession(utcDate)\<close>: the key of the bucket and the map with the bucket created when
  it was missing and its \<open>lastSeen\<close> moved forward. The caller changes the bucket under that
  key afterwards.
\<close>

definition getSession ::
  "jsdate \<Rightarrow> (string \<times> attendance session) list
     \<Rightarrow> error + string \<times> (string \<times> attendance session) list" where
  "getSession utcDate sm =
     (case utcDate of
        Null \<Rightarrow> Inl TypeError
      | Invalid \<Rightarrow> Inl RangeError
      | Valid t \<Rightarrow>
          (let key = take 10 (isoString t);
               sm1 = (case map_of sm key of
                        Some s \<Rightarrow> sm
                      | None \<Rightarrow>
                          sm @ [(key, \<lparr>date = key, dayName = DAY_NAMES ! nat (WeekDay t),
                                      roster = [], sessLoot = [], sessZones = [],
                                      sessFirstSeen = utcDate, sessLastSeen = utcDate\<rparr>)])
           in Inr (key,
                mapAdjust key
                  (\<lambda>s. if dateLess (sessLastSeen s) utcDate then s\<lparr>sessLastSeen := utcDate\<rparr>
                       else s) sm1)))"

text \<open>A line inside a roster block.\<close>

definition autoWhoLine :: "autoState \<Rightarrow> string \<Rightarrow> error + autoState" where
  "autoWhoLine s content =
     (if content = whoSeparator then Inr s
      else
        (case matchWhoFooter content of
           Some whoZone \<Rightarrow>
             (if \<not> isApprovedZone (Some whoZone) then Inr (s\<lparr>inWhoBlock := False\<rparr>)
              else
                (case isInRaidWindow (whoBlockTime s) of
                   Inl e \<Rightarrow> Inl e
                 | Inr w \<Rightarrow>
                     if \<not> w then Inr (s\<lparr>inWhoBlock := False\<rparr>)
                     else
                       (case getSession (whoBlockTime s) (sessionMap s) of
                          Inl e \<Rightarrow> Inl e
                        | Inr (key, sm) \<Rightarrow>
                            Inr (s\<lparr>inWhoBlock := False,
                                   sessionMap :=
                                     mapAdjust key
                                       (\<lambda>b. b\<lparr>sessZones := setAdd whoZone (sessZones b),
                                               roster := foldl (upsert (whoBlockTime s))
                                                           (roster b) (whoPlayers s)\<rparr>)
                                       sm\<rparr>))))
         | None \<Rightarrow>
             (case matchWhoPlayer content of
                Some p \<Rightarrow> Inr (s\<lparr>whoPlayers := whoPlayers s @ [p]\<rparr>)
              | None \<Rightarrow> Inr s)))"

text \<open>\<open>selfLoot && characterName\<close>: \<open>null\<close> and the empty string are falsy.\<close>

definition truthy :: "string option \<Rightarrow> bool" where
  "truthy v = (case v of None \<Rightarrow> False | Some x \<Rightarrow> x \<noteq> [])"

text \<open>
  The loot event of a line, under the test \<open>selfLoot && characterName\<close> of the auto
  parser and the watcher: a self-loot line counts only with a character name, and the
  other-loot pattern is tried otherwise.
\<close>

definition lootOf :: "string option \<Rightarrow> string option \<Rightarrow> jsdate \<Rightarrow> string \<Rightarrow> lootEvent option" where
  "lootOf character zn ts content =
     (case (if truthy character then matchSelfLoot content else None) of
        Some item \<Rightarrow>
          Some \<lparr>playerName = character, itemName = item, timestamp = ts, zone = zn\<rparr>
      | None \<Rightarrow>
          (case matchOtherLoot content of
             Some (who, item) \<Rightarrow>
               Some \<lparr>playerName = Some who, itemName = item, timestamp = ts, zone = zn\<rparr>
           | None \<Rightarrow> None))"

text \<open>A line outside a roster block.\<close>

definition autoLootLine :: "autoOpts \<Rightarrow> autoState \<Rightarrow> jsdate \<Rightarrow> string \<Rightarrow> error + autoState" where
  "autoLootLine opts s utcTs content =
     (case isInRaidWindow utcTs of
        Inl e \<Rightarrow> Inl e
      | Inr w \<Rightarrow>
          if \<not> w \<or> \<not> isApprovedZone (currentZone s) then Inr s
          else
            (case currentZone s of
               None \<Rightarrow> Inr s
             | Some z \<Rightarrow>
                 (case getSession utcTs (sessionMap s) of
                    Inl e \<Rightarrow> Inl e
                  | Inr (key, sm) \<Rightarrow>
                      Inr (s\<lparr>sessionMap :=
                             mapAdjust key
                               (\<lambda>b. (case lootOf (characterName opts) (currentZone s) utcTs content of
                                       None \<Rightarrow> b\<lparr>sessZones := setAdd z (sessZones b)\<rparr>
                                     | Some ev \<Rightarrow>
                                         b\<lparr>sessZones := setAdd z (sessZones b),
                                           sessLoot := sessLoot b @ [ev]\<rparr>))
                               sm\<rparr>))))"

text \<open>The classification of a line whose timestamp parsed.\<close>

definition autoClassify :: "autoOpts \<Rightarrow> autoState \<Rightarrow> jsdate \<Rightarrow> string \<Rightarrow> error + autoState" where
  "autoClassify opts s utcTs content =
     (case matchZoneEntry content of
        Some z \<Rightarrow> Inr (s\<lparr>currentZone := Some z, inWhoBlock := False\<rparr>)
      | None \<Rightarrow>
          if content = whoStart
          then (case isInRaidWindow utcTs of
                  Inl e \<Rightarrow> Inl e
                | Inr w \<Rightarrow>
                    if w
                    then Inr (s\<lparr>inWhoBlock := True, whoBlockTime := utcTs, whoPlayers := []\<rparr>)
                    else Inr s)
          else if inWhoBlock s then autoWhoLine s content
          else autoLootLine opts s utcTs content)"

text \<open>One turn of the loop of \<open>autoParseLog\<close>.\<close>

definition autoLine :: "autoOpts \<Rightarrow> autoState \<Rightarrow> string \<Rightarrow> error + autoState" where
  "autoLine opts s0 line =
     (let s = s0\<lparr>linesRead := linesRead s0 + 1\<rparr> in
      case matchLine line of
        None \<Rightarrow> Inr s
      | Some (tsStr, content) \<Rightarrow>
          (case parseEQDateUTC (timezone opts) tsStr of
             Inl e \<Rightarrow> Inl e
           | Inr None \<Rightarrow> Inr s
           | Inr (Some utcTs) \<Rightarrow> autoClassify opts s utcTs content))"

text \<open>A loop whose body may throw: the first error ends it.\<close>

fun foldE :: "('s \<Rightarrow> 'x \<Rightarrow> error + 's) \<Rightarrow> 's \<Rightarrow> 'x list \<Rightarrow> error + 's" where
  "foldE f s [] = Inr s"
| "foldE f s (x # xs) = (case f s x of Inl e \<Rightarrow> Inl e | Inr s' \<Rightarrow> foldE f s' xs)"

definition autoInit :: autoState where
  "autoInit =
     \<lparr>currentZone = None, inWhoBlock = False, whoBlockTime = Null, whoPlayers = [],
      sessionMap = [], linesRead = 0\<rparr>"

text \<open>
  The end of \<open>autoParseLog\<close>: drop the empty buckets, flatten the attendance maps, sort by
  date. \<open>Array.prototype.sort\<close> is stable, as insertion sort is; \<open>localeCompare\<close> on the
  date keys (digits, hyphens, the plus sign of a five-digit year) is the order of the code
  units, character by character.
\<close>

definition flatten :: "attendance session \<Rightarrow> participant list session" where
  "flatten s =
     \<lparr>date = date s, dayName = dayName s, roster = map snd (roster s), sessLoot = sessLoot s,
      sessZones = sessZones s, sessFirstSeen = sessFirstSeen s, sessLastSeen = sessLastSeen s\<rparr>"

definition autoSessions :: "autoState \<Rightarrow> participant list session list" where
  "autoSessions s =
     sort_key date
       (map flatten
          (filter (\<lambda>b. roster b \<noteq> [] \<or> sessLoot b \<noteq> []) (map snd (sessionMap s))))"

definition autoParseLog ::
  "autoOpts \<Rightarrow> string list \<Rightarrow> error + participant list session list \<times> nat" where
  "autoParseLog opts ls =
     (case foldE (autoLine opts) autoInit ls of
        Inl e \<Rightarrow> Inl e
      | Inr s \<Rightarrow> Inr (autoSessions s, linesRead s))"

section \<open>Live tail driver: \<open>LogWatcher\<close>\<close>

text \<open>The events the watcher emits, with the fields of their payloads.\<close>

datatype event =
    ZoneEvent string string
  | AttendanceEvent string nat "player list" "string list" string
  | LootEmitted "string option" string string "string option"

record watcherOpts = autoOpts +
  approvedZones :: "string list option"
  raidDaysOpt :: "int list option"
  raidStartOpt :: "int option"
  raidEndOpt :: "int option"

text \<open>
  The text that the watcher holds between two reads is a list of UTF-16 code units
  (\<open>pendingChunk\<close>); \<open>offset\<close> is the number of bytes of the file read so far.
\<close>

type_synonym utf16 = "int list"

record watcher = collectState +
  offset :: nat
  pendingChunk :: utf16
  liveZones :: "string list"
  emitted :: "event list"

text \<open>
  The filtering fields the constructor derives: \<open>(approvedZones || []).map(normalizeZone)\<close>,
  \<open>new Set(raidDays || [0, 3, 5, 6])\<close>, \<open>raidStartUTC ?? 13\<close>, \<open>raidEndUTC ?? 17\<close>.
\<close>

definition approvedZoneFilters :: "watcherOpts \<Rightarrow> string list" where
  "approvedZoneFilters opts =
     map normalizeZone (case approvedZones opts of None \<Rightarrow> [] | Some zs \<Rightarrow> zs)"

definition watcherRule :: "watcherOpts \<Rightarrow> raidRule" where
  "watcherRule opts =
     \<lparr>raidDays = (case raidDaysOpt opts of None \<Rightarrow> [0, 3, 5, 6] | Some ds \<Rightarrow> ds),
      raidStartUTC = (case raidStartOpt opts of None \<Rightarrow> 13 | Some h \<Rightarrow> h),
      raidEndUTC = (case raidEndOpt opts of None \<Rightarrow> 17 | Some h \<Rightarrow> h)\<rparr>"

definition watcherInit :: watcher where
  "watcherInit =
     \<lparr>currentZone = None, inWhoBlock = False, whoBlockTime = Null, whoPlayers = [],
      attendanceMap = [], lootEvents = [], offset = 0, pendingChunk = [], liveZones = [],
      emitted = []\<rparr>"

text \<open>The players of the block that were not in the map before (\<open>newPlayers\<close>).\<close>

fun newPlayers :: "attendance \<Rightarrow> player list \<Rightarrow> player list" where
  "newPlayers am [] = []"
| "newPlayers am (p # ps) =
     (case map_of am (toLowerCase (name p)) of
        None \<Rightarrow> p # newPlayers (am @ [(toLowerCase (name p), sighting p Null)]) ps
      | Some e \<Rightarrow> newPlayers am ps)"

text \<open>A line inside a roster block.\<close>

definition liveWhoLine :: "watcherOpts \<Rightarrow> watcher \<Rightarrow> string \<Rightarrow> error + watcher" where
  "liveWhoLine opts w content =
     (if content = whoSeparator then Inr w
      else
        (case matchWhoFooter content of
           Some whoZone \<Rightarrow>
             (if \<not> approvedBy (approvedZoneFilters opts) (Some whoZone)
              then Inr (w\<lparr>inWhoBlock := False\<rparr>)
              else
                (let am = foldl (upsertLive (whoBlockTime w)) (attendanceMap w) (whoPlayers w)
                 in case toISOString (whoBlockTime w) of
                      Inl e \<Rightarrow> Inl e
                    | Inr isoTs \<Rightarrow>
                        Inr (w\<lparr>inWhoBlock := False, attendanceMap := am,
                               emitted := emitted w @
                                 [AttendanceEvent whoZone (length am)
                                    (newPlayers (attendanceMap w) (whoPlayers w))
                                    (map fst am) isoTs]\<rparr>)))
         | None \<Rightarrow>
             (case matchWhoPlayer content of
                Some p \<Rightarrow> Inr (w\<lparr>whoPlayers := whoPlayers w @ [p]\<rparr>)
              | None \<Rightarrow> Inr w)))"

text \<open>A line outside a roster block.\<close>

definition liveLootLine :: "watcherOpts \<Rightarrow> watcher \<Rightarrow> jsdate \<Rightarrow> string \<Rightarrow> error + watcher" where
  "liveLootLine opts w utcTs content =
     (case inRaidWindow (watcherRule opts) utcTs of
        Inl e \<Rightarrow> Inl e
      | Inr inWin \<Rightarrow>
          if \<not> inWin \<or> \<not> approvedBy (approvedZoneFilters opts) (currentZone w) then Inr w
          else
            (case lootOf (characterName opts) (currentZone w) utcTs content of
               None \<Rightarrow> Inr w
             | Some ev \<Rightarrow>
                 (case toISOString utcTs of
                    Inl e \<Rightarrow> Inl e
                  | Inr isoTs \<Rightarrow>
                      Inr (w\<lparr>lootEvents := lootEvents w @ [ev],
                             emitted := emitted w @
                               [LootEmitted (playerName ev) (itemName ev) isoTs (zone ev)]\<rparr>))))"

text \<open>The classification of a line whose timestamp parsed.\<close>

definition liveClassify :: "watcherOpts \<Rightarrow> watcher \<Rightarrow> jsdate \<Rightarrow> string \<Rightarrow> error + watcher" where
  "liveClassify opts w utcTs content =
     (case matchZoneEntry content of
        Some z \<Rightarrow>
          (case toISOString utcTs of
             Inl e \<Rightarrow> Inl e
           | Inr isoTs \<Rightarrow>
               Inr (w\<lparr>currentZone := Some z, inWhoBlock := False,
                      liveZones := setAdd z (liveZones w),
                      emitted := emitted w @ [ZoneEvent z isoTs]\<rparr>))
      | None \<Rightarrow>
          if content = whoStart
          then (case inRaidWindow (watcherRule opts) utcTs of
                  Inl e \<Rightarrow> Inl e
                | Inr inWin \<Rightarrow>
                    if inWin
                    then Inr (w\<lparr>inWhoBlock := True, whoBlockTime := utcTs, whoPlayers := []\<rparr>)
                    else Inr w)
          else if inWhoBlock w then liveWhoLine opts w content
          else liveLootLine opts w utcTs content)"

text \<open>\<open>_processLine(line)\<close>\<close>

definition liveLine :: "watcherOpts \<Rightarrow> watcher \<Rightarrow> string \<Rightarrow> error + watcher" where
  "liveLine opts w line =
     (case matchLine line of
        None \<Rightarrow> Inr w
      | Some (tsStr, content) \<Rightarrow>
          (case parseEQDateUTC (timezone opts) tsStr of
             Inl e \<Rightarrow> Inl e
           | Inr None \<Rightarrow> Inr w
           | Inr (Some utcTs) \<Rightarrow> liveClassify opts w utcTs content))"

text \<open>
  The file is a list of bytes, each written as the \<^typ>\<open>char\<close> with that code. In the
  text that \<open>buf.toString('utf8')\<close> makes of a buffer, a well-formed UTF-8 sequence gives
  its code point (two surrogates above \<open>0xFFFF\<close>), and every maximal ill-formed part,
  also a sequence that the end of the buffer cuts short, gives the replacement character
  \<open>0xFFFD\<close>. The decoder keeps the number of bytes the current sequence still needs, the
  bits read so far, and the range allowed for the next byte.
\<close>

definition codePoint :: "int \<Rightarrow> utf16" where
  "codePoint cp =
     (if cp < 65536 then [cp]
      else [55296 + (cp - 65536) div 1024, 56320 + (cp - 65536) mod 1024])"

fun utf8 :: "nat \<Rightarrow> int \<Rightarrow> int \<Rightarrow> int \<Rightarrow> int list \<Rightarrow> utf16" where
  "utf8 need cp lo hi [] = (if need = 0 then [] else [65533])"
| "utf8 need cp lo hi (b # bs) =
     (if need = 0 then
        (if b < 128 then b # utf8 0 0 128 191 bs
         else if 194 \<le> b \<and> b \<le> 223 then utf8 1 (b - 192) 128 191 bs
         else if 224 \<le> b \<and> b \<le> 239
           then utf8 2 (b - 224) (if b = 224 then 160 else 128) (if b = 237 then 159 else 191) bs
         else if 240 \<le> b \<and> b \<le> 244
           then utf8 3 (b - 240) (if b = 240 then 144 else 128) (if b = 244 then 143 else 191) bs
         else 65533 # utf8 0 0 128 191 bs)
      else if b < lo \<or> hi < b then 65533 # utf8 0 0 128 191 (b # bs)
      else if need = 1 then codePoint (cp * 64 + (b - 128)) @ utf8 0 0 128 191 bs
      else utf8 (need - 1) (cp * 64 + (b - 128)) 128 191 bs)"

definition utf8Decode :: "string \<Rightarrow> utf16" where
  "utf8Decode buf = utf8 0 0 128 191 (map of_char buf)"

text \<open>
  The strings of this development hold the code units below 256. \<open>unitsOf\<close> is such a
  string as text, and \<open>latin1\<close> is a text as such a string, where all its code units are
  below 256.
\<close>

definition unitsOf :: "string \<Rightarrow> utf16" where
  "unitsOf s = map of_char s"

definition latin1 :: "utf16 \<Rightarrow> string option" where
  "latin1 t = (if list_all (\<lambda>u. 0 \<le> u \<and> u < 256) t then Some (map char_of t) else None)"

text \<open>
  \<open>text.split(/\r?\n/)\<close>: the pieces between the line ends, the last piece included
  (it is empty when the text ends with a line end). The first argument is the piece read
  so far.
\<close>

fun splitLines :: "utf16 \<Rightarrow> utf16 \<Rightarrow> utf16 list" where
  "splitLines acc [] = [acc]"
| "splitLines acc [c] = (if c = 10 then [acc, []] else [acc @ [c]])"
| "splitLines acc (c # d # r) =
     (if c = 10 then acc # splitLines [] (d # r)
      else if c = 13 \<and> d = 10 then acc # splitLines [] r
      else splitLines (acc @ [c]) (d # r))"

text \<open>
  The loop \<open>for (const line of lines) this._processLine(line)\<close>. An exception of
  \<open>_processLine\<close> ends it. The result is \<open>None\<close> where a line to classify has a code
  unit from 256 on: such a line is outside the strings of this development, and the
  model says nothing of what the watcher does with it.
\<close>

fun liveLines :: "watcherOpts \<Rightarrow> watcher \<Rightarrow> utf16 list \<Rightarrow> (error + watcher) option" where
  "liveLines opts w [] = Some (Inr w)"
| "liveLines opts w (l # ls) =
     (case latin1 l of
        None \<Rightarrow> None
      | Some line \<Rightarrow>
          (case liveLine opts w line of
             Inl e \<Rightarrow> Some (Inl e)
           | Inr w' \<Rightarrow> liveLines opts w' ls))"

text \<open>
  \<open>_readNew()\<close>. The log is given by its bytes (\<open>None\<close>: \<open>statSync\<close> or the read
  failed, and the method returns); the bytes from \<open>offset\<close> on are new, and they are
  decoded on their own, whatever the bytes before them were.
\<close>

definition readNew :: "watcherOpts \<Rightarrow> string option \<Rightarrow> watcher \<Rightarrow> (error + watcher) option" where
  "readNew opts file w =
     (case file of
        None \<Rightarrow> Some (Inr w)
      | Some bytes \<Rightarrow>
          if length bytes \<le> offset w then Some (Inr w)
          else
            (let pieces = splitLines [] (pendingChunk w @ utf8Decode (drop (offset w) bytes))
             in liveLines opts
                  (w\<lparr>offset := length bytes, pendingChunk := last pieces\<rparr>)
                  (butlast pieces)))"

text \<open>\<open>getSessionData().attendance\<close> and \<open>.loot\<close>\<close>

definition liveAttendance :: "watcher \<Rightarrow> participant list" where
  "liveAttendance w = map snd (attendanceMap w)"

section \<open>The zone matcher as the specification words it\<close>

text \<open>
  The specification's \<open>normalize(name) = lowercase(trim(name))\<close> with a single leading
  \<open>the \<close> (the word and one space) stripped, and its \<open>matches\<close> over that
  normalization, to be compared with \<^const>\<open>normalizeZone\<close> and \<^const>\<open>matches\<close>.
\<close>

definition stripLeadingThe :: "string \<Rightarrow> string" where
  "stripLeadingThe s = (case stripPrefix ''the '' s of Some r \<Rightarrow> r | None \<Rightarrow> s)"

definition specNormalize :: "string \<Rightarrow> string" where
  "specNormalize nm = stripLeadingThe (toLowerCase (trim nm))"

definition specMatches :: "string \<Rightarrow> string list \<Rightarrow> bool" where
  "specMatches zoneName filterSet =
     (zoneName \<noteq> [] \<and> filterSet \<noteq> [] \<and>
      list_ex (\<lambda>f. includesStr (specNormalize zoneName) (specNormalize f)
                 \<or> includesStr (specNormalize f) (specNormalize zoneName)) filterSet)"

section \<open>The gate of auto-detect and live mode as the specification words it\<close>

text \<open>
  An instant lies in the raid window when its UTC day of the week is in the day set and
  its UTC hour is at least the start hour and below the end hour. The days are counted
  from Sunday as 0, and the first day of the epoch was a Thursday; a day has 86400000
  milliseconds and an hour 3600000. \<open>null\<close> and an invalid date lie in no window.
\<close>

definition inWindow :: "int list \<Rightarrow> int \<Rightarrow> int \<Rightarrow> jsdate \<Rightarrow> bool" where
  "inWindow days startHour endHour d =
     (case d of
        Valid t \<Rightarrow>
          (t div 86400000 + 4) mod 7 \<in> set days
          \<and> startHour \<le> (t div 3600000) mod 24 \<and> (t div 3600000) mod 24 < endHour
      | _ \<Rightarrow> False)"

text \<open>
  A zone is approved by a list of zone names when it is a name (not \<open>null\<close>, not empty)
  and the zone matcher matches it against an entry of the list: of the two normalized
  names, one contains the other.
\<close>

definition zoneApproved :: "string list \<Rightarrow> string option \<Rightarrow> bool" where
  "zoneApproved approved zoneName =
     (case zoneName of
        None \<Rightarrow> False
      | Some z \<Rightarrow>
          z \<noteq> [] \<and>
          list_ex (\<lambda>f. sublist (normalizeZone f) (normalizeZone z)
                     \<or> sublist (normalizeZone z) (normalizeZone f)) approved)"

text \<open>
  What passed the gate: a loot event whose instant lies in the window and whose zone is
  approved; an attendance record first and last seen at instants in the window; a
  session or a watcher that holds only such events and records, with approved zones.
\<close>

definition lootPassed :: "int list \<Rightarrow> int \<Rightarrow> int \<Rightarrow> string list \<Rightarrow> lootEvent \<Rightarrow> bool" where
  "lootPassed days startHour endHour approved ev =
     (inWindow days startHour endHour (timestamp ev) \<and> zoneApproved approved (zone ev))"

definition recordPassed :: "int list \<Rightarrow> int \<Rightarrow> int \<Rightarrow> participant \<Rightarrow> bool" where
  "recordPassed days startHour endHour r =
     (inWindow days startHour endHour (firstSeen r)
      \<and> inWindow days startHour endHour (lastSeen r))"

definition sessionPassed ::
  "int list \<Rightarrow> int \<Rightarrow> int \<Rightarrow> string list \<Rightarrow> participant list session \<Rightarrow> bool" where
  "sessionPassed days startHour endHour approved b =
     (list_all (lootPassed days startHour endHour approved) (sessLoot b)
      \<and> list_all (recordPassed days startHour endHour) (roster b)
      \<and> list_all (\<lambda>z. zoneApproved approved (Some z)) (sessZones b))"

fun eventPassed :: "string list \<Rightarrow> event \<Rightarrow> bool" where
  "eventPassed approved (ZoneEvent z t) = True"
| "eventPassed approved (AttendanceEvent z n new all t) = zoneApproved approved (Some z)"
| "eventPassed approved (LootEmitted who item t z) = zoneApproved approved z"

definition watcherPassed :: "int list \<Rightarrow> int \<Rightarrow> int \<Rightarrow> string list \<Rightarrow> watcher \<Rightarrow> bool" where
  "watcherPassed days startHour endHour approved w =
     (list_all (lootPassed days startHour endHour approved) (lootEvents w)
      \<and> list_all (recordPassed days startHour endHour) (map snd (attendanceMap w))
      \<and> list_all (eventPassed approved) (emitted w)
      \<and> (inWhoBlock w \<longrightarrow> inWindow days startHour endHour (whoBlockTime w)))"

text \<open>An option of the watcher's constructor, or its default.\<close>

definition orDefault :: "'a option \<Rightarrow> 'a \<Rightarrow> 'a" where
  "orDefault v d = (case v of None \<Rightarrow> d | Some x \<Rightarrow> x)"

text \<open>
  The zone that a line enters: the captured name, for a line of the log whose timestamp
  parses and whose content is a zone entry. The zone last entered in a sequence of lines
  is the zone of its last such line, \<open>null\<close> when it has none; roster footers take no part
  in it.
\<close>

definition zoneEntered :: "timezone \<Rightarrow> string \<Rightarrow> string option" where
  "zoneEntered tz line =
     (case matchLine line of
        None \<Rightarrow> None
      | Some (tsStr, content) \<Rightarrow>
          (case parseEQDateUTC tz tsStr of
             Inr (Some ts) \<Rightarrow> matchZoneEntry content
           | _ \<Rightarrow> None))"

definition lastZoneEntered :: "timezone \<Rightarrow> string list \<Rightarrow> string option" where
  "lastZoneEntered tz ls =
     (case rev (List.map_filter (zoneEntered tz) ls) of [] \<Rightarrow> None | z # zs \<Rightarrow> Some z)"

section \<open>Further notions of the statements and the proofs\<close>

text \<open>Every loot event of every bucket of an auto-mode scan, in bucket order.\<close>

definition allLoot :: "autoState \<Rightarrow> lootEvent list" where
  "allLoot s = concat (map (sessLoot \<circ> snd) (sessionMap s))"

text \<open>
  The two halves of \<open>text.split(/\r?\n/)\<close> followed by \<open>lines.pop()\<close>: the complete
  lines, which go to \<open>_processLine\<close>, and the trailing piece, kept in \<open>pendingChunk\<close>.
\<close>

definition completeLines :: "utf16 \<Rightarrow> utf16 list" where
  "completeLines text = butlast (splitLines [] text)"

definition carried :: "utf16 \<Rightarrow> utf16" where
  "carried text = last (splitLines [] text)"

text \<open>
  The gate through the functions of the code, as the invariant that each line of a scan
  keeps: a loot event lies in the raid window and carries an approved zone, an attendance
  record was first and last seen at instants in the raid window, and the zones of a
  session and of the watcher's attendance and loot events are approved.
\<close>

definition gatedLoot :: "raidRule \<Rightarrow> string list \<Rightarrow> lootEvent \<Rightarrow> bool" where
  "gatedLoot rule filters ev =
     (inRaidWindow rule (timestamp ev) = Inr True \<and> approvedBy filters (zone ev))"

definition gatedRecord :: "raidRule \<Rightarrow> participant \<Rightarrow> bool" where
  "gatedRecord rule r =
     (inRaidWindow rule (firstSeen r) = Inr True \<and> inRaidWindow rule (lastSeen r) = Inr True)"

definition gatedSession :: "participant list session \<Rightarrow> bool" where
  "gatedSession b =
     (list_all (gatedLoot RAID_RULE (map normalizeZone APPROVED_ZONES)) (sessLoot b)
      \<and> list_all (gatedRecord RAID_RULE) (roster b)
      \<and> list_all (\<lambda>z. isApprovedZone (Some z)) (sessZones b))"

fun gatedEvent :: "string list \<Rightarrow> event \<Rightarrow> bool" where
  "gatedEvent filters (ZoneEvent z t) = True"
| "gatedEvent filters (AttendanceEvent z n new all t) = approvedBy filters (Some z)"
| "gatedEvent filters (LootEmitted who item t z) = approvedBy filters z"

definition liveGated :: "watcherOpts \<Rightarrow> watcher \<Rightarrow> bool" where
  "liveGated opts w =
     ((inWhoBlock w \<longrightarrow> inRaidWindow (watcherRule opts) (whoBlockTime w) = Inr True)
      \<and> list_all (gatedLoot (watcherRule opts) (approvedZoneFilters opts)) (lootEvents w)
      \<and> list_all (gatedRecord (watcherRule opts) \<circ> snd) (attendanceMap w)
      \<and> list_all (gatedEvent (approvedZoneFilters opts)) (emitted w))"

definition autoGated :: "autoState \<Rightarrow> bool" where
  "autoGated s = list_all ((gatedSession \<circ> flatten) \<circ> snd) (sessionMap s)"

text \<open>The shape of a line, whatever its timestamp: a roster footer, a zone entry.\<close>

definition isFooterLine :: "string \<Rightarrow> bool" where
  "isFooterLine l =
     (case matchLine l of None \<Rightarrow> False | Some (tsStr, content) \<Rightarrow> matchWhoFooter content \<noteq> None)"

definition isZoneEntryLine :: "string \<Rightarrow> bool" where
  "isZoneEntryLine l =
     (case matchLine l of None \<Rightarrow> False | Some (tsStr, content) \<Rightarrow> matchZoneEntry content \<noteq> None)"

text \<open>
  Two scanner states that no later line can tell apart, as far as attendance and loot go:
  they agree on everything but the counters and, outside a roster block, the stale block
  instant and buffer.
\<close>

definition agreeScan :: "'a scanState_scheme \<Rightarrow> 'b scanState_scheme \<Rightarrow> bool" where
  "agreeScan s t =
     (currentZone s = currentZone t \<and> inWhoBlock s = inWhoBlock t
      \<and> (inWhoBlock s \<longrightarrow> whoBlockTime s = whoBlockTime t \<and> whoPlayers s = whoPlayers t))"

definition agreeBatch :: "batchState \<Rightarrow> batchState \<Rightarrow> bool" where
  "agreeBatch s t =
     (agreeScan s t \<and> attendanceMap s = attendanceMap t \<and> lootEvents s = lootEvents t)"

definition agreeAuto :: "autoState \<Rightarrow> autoState \<Rightarrow> bool" where
  "agreeAuto s t = (agreeScan s t \<and> sessionMap s = sessionMap t)"

definition agreeLive :: "watcher \<Rightarrow> watcher \<Rightarrow> bool" where
  "agreeLive s t =
     (agreeScan s t \<and> attendanceMap s = attendanceMap t \<and> lootEvents s = lootEvents t
      \<and> liveZones s = liveZones t \<and> emitted s = emitted t)"

section \<open>Strings and maps\<close>

declare bitLength.simps [simp del]

lemma stripPrefix_Some: "stripPrefix p s = Some r \<longleftrightarrow> s = p @ r"
  by (induction p s rule: stripPrefix.induct) auto

lemma stripPrefix_None: "stripPrefix p s = None \<longleftrightarrow> \<not> prefix p s"
  by (induction p s rule: stripPrefix.induct) auto

lemma includesStr_sublist: "includesStr hay needle \<longleftrightarrow> sublist needle hay"
proof (induction hay)
  case Nil
  show ?case by simp
next
  case (Cons c cs)
  show ?case
  proof (cases "stripPrefix needle (c # cs)")
    case None
    then have "\<not> prefix needle (c # cs)" by (simp add: stripPrefix_None)
    with None Cons show ?thesis by (simp add: sublist_Cons_right)
  next
    case (Some r)
    then have "prefix needle (c # cs)" by (simp add: stripPrefix_Some prefix_def)
    with Some show ?thesis by (simp add: sublist_Cons_right)
  qed
qed

lemma map_of_mapAdjust:
  "map_of (mapAdjust k f am) k' = (if k' = k then map_option f (map_of am k) else map_of am k')"
  by (induction am) auto

lemma keys_mapAdjust: "map fst (mapAdjust k f am) = map fst am"
  by (induction am) auto

lemma stripSuffix_Some: "stripSuffix suf s = Some r \<longleftrightarrow> s = r @ suf"
proof -
  have "stripSuffix suf s = Some r \<longleftrightarrow> (\<exists>x. rev s = rev suf @ x \<and> rev x = r)"
    by (auto simp: stripSuffix_def stripPrefix_Some)
  also have "\<dots> \<longleftrightarrow> s = r @ suf"
    by (metis rev_append rev_rev_ident)
  finally show ?thesis .
qed

section \<open>The numbers of a timestamp\<close>

lemma num_snoc: "num (ds @ [c]) = 10 * num ds + (int (of_char c) - 48)"
  by (simp add: num_def)

lemma num_digits_bound: "list_all isDigit ds \<Longrightarrow> 0 \<le> num ds \<and> num ds < 10 ^ length ds"
proof (induction ds rule: rev_induct)
  case Nil
  show ?case by (simp add: num_def)
next
  case (snoc c ds)
  then have d: "48 \<le> int (of_char c)" "int (of_char c) \<le> 57" and ih: "0 \<le> num ds"
    "num ds < 10 ^ length ds"
    by (simp_all add: isDigit_def Let_def)
  from ih(2) have "num ds + 1 \<le> 10 ^ length ds" by simp
  then have "10 * num ds + 10 \<le> 10 * 10 ^ length ds" by simp
  with d ih(1) show ?case by (simp add: num_snoc)
qed

lemma takeN_Some:
  "takeN P n s = Some (a, r) \<Longrightarrow> length a = n \<and> list_all P a"
  by (auto simp: takeN_def split: if_splits)

lemma takeDay_Some:
  "takeDay s = Some (d, r) \<Longrightarrow> length d \<le> 2 \<and> list_all isDigit d"
  by (auto simp: takeDay_def dest: takeN_Some split: option.splits)

lemma matchStamp_fields:
  assumes "matchStamp s = Some (p, r)"
  shows "list_all (\<lambda>ds. length ds \<le> 4 \<and> list_all isDigit ds)
           [year p, day p, hh p, mi p, ss p]"
  using assms
  by (auto simp: matchStamp_def bind_eq_Some_conv dest!: takeN_Some takeDay_Some)

lemma searchStamp_fields:
  "searchStamp s = Some p
     \<Longrightarrow> list_all (\<lambda>ds. length ds \<le> 4 \<and> list_all isDigit ds)
           [year p, day p, hh p, mi p, ss p]"
proof (induction s)
  case Nil
  then show ?case by simp
next
  case (Cons c cs)
  show ?case
  proof (cases "matchStamp (c # cs)")
    case None
    with Cons show ?thesis by simp
  next
    case (Some pr)
    obtain q r where pr: "pr = (q, r)" by (cases pr)
    with Some Cons.prems have "q = p" by simp
    with Some pr show ?thesis using matchStamp_fields [of "c # cs" p r] by simp
  qed
qed

lemma numberValue_small: "n < 2 ^ 53 \<Longrightarrow> numberValue n = Num n"
  by (simp add: numberValue_def)

text \<open>
  The digit groups of a timestamp have four digits at most, so the number that the unary
  plus gives for each of them is the integer they write.
\<close>

lemma unaryPlus_short:
  assumes "length ds \<le> 4" and "list_all isDigit ds"
  shows "finiteNumber (unaryPlus ds) = Some (num ds)"
proof -
  from num_digits_bound [OF assms(2)] have "num ds < 10 ^ length ds" by simp
  also have "(10 :: int) ^ length ds \<le> 10 ^ 4"
    using assms(1) by (intro power_increasing) simp_all
  also have "(10 :: int) ^ 4 < 2 ^ 53" by simp
  finally have "numberValue (num ds) = Num (num ds)" by (rule numberValue_small)
  then show ?thesis by (simp add: unaryPlus_def finiteNumber_def)
qed

lemma stamp_numbers_exact:
  assumes "searchStamp ts = Some p"
  shows "stampNumbers p = Some (num (year p), num (day p), num (hh p), num (mi p), num (ss p))"
  using searchStamp_fields [OF assms] by (simp add: stampNumbers_def unaryPlus_short)

text \<open>
  A level is read by \<open>parseInt\<close> from digits without a bound on their number: from
  \<open>2^53\<close> on the number is the nearest double.
\<close>

lemma parseInt_rounds:
  "parseInt ''60'' = Num 60
   \<and> parseInt ''9007199254740993'' = Num 9007199254740992
   \<and> parseInt ''9007199254740995'' = Num 9007199254740996"
  by code_simp

section \<open>Loot lines\<close>

lemma matchSelfLoot_Some:
  "matchSelfLoot content = Some item \<Longrightarrow> content = ''--You have looted a '' @ item @ ''.--''"
  by (auto simp: matchSelfLoot_def bind_eq_Some_conv stripPrefix_Some stripSuffix_Some
           split: if_splits)

lemma nameChars_You:
  "isNameChar CHR ''Y''" "isNameChar CHR ''o''" "isNameChar CHR ''u''" "\<not> isNameChar CHR '' ''"
  by code_simp+

lemma selfLoot_not_zoneEntry:
  "matchSelfLoot content = Some item \<Longrightarrow> matchZoneEntry content = None"
  by (drule matchSelfLoot_Some) (simp add: matchZoneEntry_def)

lemma selfLoot_not_whoStart: "matchSelfLoot content = Some item \<Longrightarrow> content \<noteq> whoStart"
  by (drule matchSelfLoot_Some) (simp add: whoStart_def)

lemma selfLoot_not_otherLoot:
  "matchSelfLoot content = Some item \<Longrightarrow> matchOtherLoot content = None"
  by (drule matchSelfLoot_Some) (simp add: matchOtherLoot_def nameChars_You)

lemma selfLoot_not_whoLine:
  assumes "matchSelfLoot content = Some item"
  shows "content \<noteq> whoSeparator" "matchWhoFooter content = None" "matchWhoPlayer content = None"
  using matchSelfLoot_Some [OF assms]
  by (simp_all add: whoSeparator_def matchWhoFooter_def matchWhoPlayer_def matchLevelClass_def
        lit_def)

lemma lootOf_no_character:
  assumes "\<not> truthy character" and "matchSelfLoot content = Some item"
  shows "lootOf character zn ts content = None"
  using assms by (simp add: lootOf_def selfLoot_not_otherLoot)

lemma concat_sessLoot_mapAdjust:
  assumes "\<And>b. sessLoot (f b) = sessLoot b"
  shows "concat (map (sessLoot \<circ> snd) (mapAdjust k f sm)) = concat (map (sessLoot \<circ> snd) sm)"
  using assms by (induction sm) auto

lemma getSession_loot:
  assumes "getSession d sm = Inr (key, sm')"
  shows "concat (map (sessLoot \<circ> snd) sm') = concat (map (sessLoot \<circ> snd) sm)"
  using assms
  by (auto simp: getSession_def Let_def concat_sessLoot_mapAdjust split: jsdate.splits option.splits)

section \<open>Splitting text into lines\<close>

lemma splitLines_nonempty: "splitLines acc t \<noteq> []"
  by (induction acc t rule: splitLines.induct) auto

lemma splitLines_step:
  "c \<noteq> 10 \<Longrightarrow> \<not> (c = 13 \<and> d = 10)
     \<Longrightarrow> splitLines acc (c # d # r) = splitLines (acc @ [c]) (d # r)"
  by (cases "c = 13") auto

lemma splitLines_acc:
  assumes "10 \<notin> set acc"
    and "\<not> (acc \<noteq> [] \<and> last acc = 13 \<and> b \<noteq> [] \<and> hd b = 10)"
  shows "splitLines acc0 (acc @ b) = splitLines (acc0 @ acc) b"
  using assms
proof (induction acc arbitrary: acc0)
  case Nil
  show ?case by simp
next
  case (Cons x xs)
  show ?case
  proof (cases "xs @ b")
    case Nil
    with Cons.prems show ?thesis by simp
  next
    case (Cons d r)
    have x: "x \<noteq> 10" using Cons.prems by auto
    have nd: "\<not> (x = 13 \<and> d = 10)"
    proof (cases xs)
      case Nil
      with Cons Cons.prems show ?thesis by auto
    next
      case (Cons y ys)
      with \<open>xs @ b = d # r\<close> have "d = y" by simp
      with Cons Cons.prems show ?thesis by auto
    qed
    have ih: "splitLines (acc0 @ [x]) (xs @ b) = splitLines ((acc0 @ [x]) @ xs) b"
      using Cons.prems by (intro Cons.IH) (auto split: if_splits)
    have "splitLines acc0 ((x # xs) @ b) = splitLines acc0 (x # d # r)"
      using Cons by simp
    also have "\<dots> = splitLines (acc0 @ [x]) (d # r)"
      using x nd by (rule splitLines_step)
    also have "\<dots> = splitLines (acc0 @ [x]) (xs @ b)" using Cons by simp
    finally show ?thesis using ih by simp
  qed
qed

lemma splitLines_append:
  assumes "10 \<notin> set acc"
    and "\<not> (acc \<noteq> [] \<and> last acc = 13 \<and> a @ b \<noteq> [] \<and> hd (a @ b) = 10)"
  shows "splitLines acc (a @ b)
           = butlast (splitLines acc a) @ splitLines [] (last (splitLines acc a) @ b)"
  using assms
proof (induction acc a rule: splitLines.induct)
  case (1 acc)
  then show ?case using splitLines_acc [of acc b "[]"] by simp
next
  case (2 acc c)
  show ?case
  proof (cases "c = 10")
    case True
    then show ?thesis by (cases b) auto
  next
    case False
    have "splitLines [] (acc @ (c # b)) = splitLines ([] @ acc) (c # b)"
      using 2 False by (intro splitLines_acc) auto
    with False show ?thesis by simp
  qed
next
  case (3 acc c d r)
  show ?case
  proof (cases "c = 10")
    case True
    with 3 show ?thesis by (simp add: splitLines_nonempty)
  next
    case nlf: False
    show ?thesis
    proof (cases "c = 13 \<and> d = 10")
      case True
      with 3 nlf show ?thesis by (simp add: splitLines_nonempty)
    next
      case False
      have "splitLines (acc @ [c]) ((d # r) @ b)
              = butlast (splitLines (acc @ [c]) (d # r))
                @ splitLines [] (last (splitLines (acc @ [c]) (d # r)) @ b)"
        using 3 nlf False by (intro "3.IH"(3)) auto
      then show ?thesis
        using splitLines_step [OF nlf False, of acc r]
          splitLines_step [OF nlf False, of acc "r @ b"] by simp
    qed
  qed
qed

lemma carry_over:
  "completeLines (p @ a @ b) = completeLines (p @ a) @ completeLines (carried (p @ a) @ b)
   \<and> carried (p @ a @ b) = carried (carried (p @ a) @ b)"
proof -
  have "splitLines [] ((p @ a) @ b)
          = butlast (splitLines [] (p @ a)) @ splitLines [] (last (splitLines [] (p @ a)) @ b)"
    by (rule splitLines_append) auto
  then show ?thesis
    by (simp add: completeLines_def carried_def butlast_append last_append splitLines_nonempty)
qed

section \<open>The watcher\<close>

lemma foldE_append:
  "foldE f s (xs @ ys) = (case foldE f s xs of Inl e \<Rightarrow> Inl e | Inr s' \<Rightarrow> foldE f s' ys)"
  by (induction xs arbitrary: s) (auto split: sum.splits)

lemma liveWhoLine_frame:
  "liveWhoLine opts (w\<lparr>offset := n, pendingChunk := c\<rparr>) content
     = map_sum id (\<lambda>w'. w'\<lparr>offset := n, pendingChunk := c\<rparr>) (liveWhoLine opts w content)"
  by (simp add: liveWhoLine_def Let_def split: option.split sum.split)

lemma liveLootLine_frame:
  "liveLootLine opts (w\<lparr>offset := n, pendingChunk := c\<rparr>) ts content
     = map_sum id (\<lambda>w'. w'\<lparr>offset := n, pendingChunk := c\<rparr>) (liveLootLine opts w ts content)"
  by (simp add: liveLootLine_def Let_def split: option.split sum.split)

lemma liveClassify_frame:
  "liveClassify opts (w\<lparr>offset := n, pendingChunk := c\<rparr>) ts content
     = map_sum id (\<lambda>w'. w'\<lparr>offset := n, pendingChunk := c\<rparr>) (liveClassify opts w ts content)"
  by (simp add: liveClassify_def liveWhoLine_frame liveLootLine_frame
        split: option.split sum.split)

lemma liveLine_frame:
  "liveLine opts (w\<lparr>offset := n, pendingChunk := c\<rparr>) l
     = map_sum id (\<lambda>w'. w'\<lparr>offset := n, pendingChunk := c\<rparr>) (liveLine opts w l)"
  by (simp add: liveLine_def liveClassify_frame split: option.split sum.split)

lemma foldE_liveLine_frame:
  "foldE (liveLine opts) (w\<lparr>offset := n, pendingChunk := c\<rparr>) ls
     = map_sum id (\<lambda>w'. w'\<lparr>offset := n, pendingChunk := c\<rparr>) (foldE (liveLine opts) w ls)"
proof (induction ls arbitrary: w)
  case Nil
  show ?case by simp
next
  case (Cons l ls)
  show ?case
  proof (cases "liveLine opts w l")
    case (Inl e)
    then show ?thesis by (simp add: liveLine_frame)
  next
    case (Inr w')
    then show ?thesis using Cons.IH [of w'] by (simp add: liveLine_frame)
  qed
qed

lemma of_char_int_range: "0 \<le> (of_char c :: int) \<and> (of_char c :: int) < 256"
  by (cases c) (simp add: of_char_def)

lemma latin1_unitsOf: "latin1 (unitsOf s) = Some s"
proof -
  have "list_all (\<lambda>u. 0 \<le> u \<and> u < 256) (map of_char s :: int list)"
    by (induction s) (simp_all add: of_char_int_range)
  moreover have "map char_of (map of_char s :: int list) = s"
    by (induction s) simp_all
  ultimately show ?thesis by (simp add: latin1_def unitsOf_def)
qed

lemma liveLines_unitsOf:
  "liveLines opts w (map unitsOf ls) = Some (foldE (liveLine opts) w ls)"
  by (induction ls arbitrary: w) (auto simp: latin1_unitsOf split: sum.splits)

lemma liveLines_append:
  "liveLines opts w (xs @ ys)
     = (case liveLines opts w xs of
          None \<Rightarrow> None
        | Some (Inl e) \<Rightarrow> Some (Inl e)
        | Some (Inr w') \<Rightarrow> liveLines opts w' ys)"
  by (induction xs arbitrary: w) (auto split: option.splits sum.splits)

lemma liveLines_frame:
  "liveLines opts (w\<lparr>offset := n, pendingChunk := c\<rparr>) ls
     = map_option (map_sum id (\<lambda>w'. w'\<lparr>offset := n, pendingChunk := c\<rparr>))
         (liveLines opts w ls)"
proof (induction ls arbitrary: w)
  case Nil
  show ?case by simp
next
  case (Cons l ls)
  show ?case
  proof (cases "latin1 l")
    case None
    then show ?thesis by simp
  next
    case (Some line)
    show ?thesis
    proof (cases "liveLine opts w line")
      case (Inl e)
      with Some show ?thesis by (simp add: liveLine_frame)
    next
      case (Inr w')
      with Some show ?thesis using Cons.IH [of w'] by (simp add: liveLine_frame)
    qed
  qed
qed

lemma liveLines_invariant:
  assumes "liveLines opts w ls = Some (Inr w')" and "P w"
    and "\<And>v l v'. P v \<Longrightarrow> liveLine opts v l = Inr v' \<Longrightarrow> P v'"
  shows "P w'"
  using assms(1,2)
proof (induction ls arbitrary: w)
  case Nil
  then show ?case by simp
next
  case (Cons l ls)
  from Cons.prems(1) obtain line where l: "latin1 l = Some line"
    by (cases "latin1 l") auto
  from Cons.prems(1) l obtain v where v: "liveLine opts w line = Inr v"
    by (cases "liveLine opts w line") auto
  from Cons.prems(1) l v have "liveLines opts v ls = Some (Inr w')" by simp
  moreover have "P v" using Cons.prems(2) v by (rule assms(3))
  ultimately show ?case by (rule Cons.IH)
qed

text \<open>Bytes below 128 decode to themselves, whatever follows them.\<close>

lemma utf8_ascii:
  "list_all (\<lambda>c. (of_char c :: int) < 128) a
     \<Longrightarrow> utf8 0 0 128 191 (map of_char a @ bs) = map of_char a @ utf8 0 0 128 191 bs"
  by (induction a) auto

lemma utf8Decode_ascii:
  "list_all (\<lambda>c. (of_char c :: int) < 128) a
     \<Longrightarrow> utf8Decode (a @ b) = unitsOf a @ utf8Decode b"
  using utf8_ascii [of a "map of_char b"] by (simp add: utf8Decode_def unitsOf_def)

lemma readNew_unfold:
  assumes "offset w < length bytes"
  shows "readNew opts (Some bytes) w
     = map_option (map_sum id (\<lambda>w'. w'\<lparr>offset := length bytes,
          pendingChunk := carried (pendingChunk w @ utf8Decode (drop (offset w) bytes))\<rparr>))
         (liveLines opts w
            (completeLines (pendingChunk w @ utf8Decode (drop (offset w) bytes))))"
  using assms
  by (simp add: readNew_def Let_def completeLines_def carried_def liveLines_frame)

lemma readNew_offset:
  assumes "readNew opts (Some bytes) w = Some (Inr w1)" and "offset w < length bytes"
  shows "offset w1 = length bytes"
proof -
  define r where
    "r = liveLines opts w (completeLines (pendingChunk w @ utf8Decode (drop (offset w) bytes)))"
  show ?thesis
  proof (cases r)
    case None
    with assms show ?thesis by (simp add: readNew_unfold r_def [symmetric])
  next
    case (Some x)
    with assms show ?thesis by (cases x) (auto simp: readNew_unfold r_def [symmetric])
  qed
qed

lemma readNew_noop:
  "length bytes \<le> offset w \<Longrightarrow> readNew opts (Some bytes) w = Some (Inr w)"
  by (simp add: readNew_def)

text \<open>
  Two reads against one, where the bytes of the second read decode after those of the
  first as they do on their own.
\<close>

lemma readNew_two_reads:
  assumes "offset w = length base"
    and "utf8Decode (a @ b) = utf8Decode a @ utf8Decode b"
  shows "readNew opts (Some (base @ a @ b)) w
     = (case readNew opts (Some (base @ a)) w of
          None \<Rightarrow> None
        | Some (Inl e) \<Rightarrow> Some (Inl e)
        | Some (Inr w1) \<Rightarrow> readNew opts (Some (base @ a @ b)) w1)"
proof (cases "a = []")
  case True
  then show ?thesis using assms by (simp add: readNew_noop)
next
  case a: False
  then have lt: "offset w < length (base @ a)" using assms by simp
  show ?thesis
  proof (cases "b = []")
    case True
    show ?thesis
    proof (cases "readNew opts (Some (base @ a)) w")
      case None
      with True show ?thesis by simp
    next
      case (Some x)
      show ?thesis
      proof (cases x)
        case (Inl e)
        with Some True show ?thesis by simp
      next
        case (Inr w1)
        with Some have r: "readNew opts (Some (base @ a)) w = Some (Inr w1)" by simp
        from readNew_offset [OF r lt] have "readNew opts (Some (base @ a)) w1 = Some (Inr w1)"
          by (intro readNew_noop) simp
        with True r show ?thesis by simp
      qed
    qed
  next
    case b: False
    define p where "p = pendingChunk w"
    define ta where "ta = utf8Decode a"
    define tb where "tb = utf8Decode b"
    define n1 where "n1 = length (base @ a)"
    define n2 where "n2 = length (base @ a @ b)"
    define L1 where "L1 = completeLines (p @ ta)"
    define L2 where "L2 = completeLines (carried (p @ ta) @ tb)"
    define c1 where "c1 = carried (p @ ta)"
    define c2 where "c2 = carried (p @ ta @ tb)"
    have co: "completeLines (p @ ta @ tb) = L1 @ L2" "carried (c1 @ tb) = c2"
      using carry_over [of p ta tb] by (simp_all add: L1_def L2_def c1_def c2_def)
    have d1: "utf8Decode (drop (offset w) (base @ a)) = ta"
      and d2: "utf8Decode (drop (offset w) (base @ a @ b)) = ta @ tb"
      using assms by (simp_all add: ta_def tb_def)
    have lt2: "offset w < length (base @ a @ b)" using lt by simp
    have u1: "readNew opts (Some (base @ a)) w
        = map_option (map_sum id (\<lambda>w'. w'\<lparr>offset := n1, pendingChunk := c1\<rparr>))
            (liveLines opts w L1)"
      unfolding readNew_unfold [OF lt] d1 n1_def c1_def L1_def p_def ..
    have u2: "readNew opts (Some (base @ a @ b)) w
        = map_option (map_sum id (\<lambda>w'. w'\<lparr>offset := n2, pendingChunk := c2\<rparr>))
            (liveLines opts w (L1 @ L2))"
      unfolding readNew_unfold [OF lt2] d2 n2_def c2_def co(1) [symmetric] p_def ..
    show ?thesis
    proof (cases "liveLines opts w L1")
      case None
      then show ?thesis unfolding u1 u2 liveLines_append by simp
    next
      case (Some x)
      show ?thesis
      proof (cases x)
        case (Inl e)
        with Some show ?thesis unfolding u1 u2 liveLines_append by simp
      next
        case (Inr w')
        define w1 where "w1 = w'\<lparr>offset := n1, pendingChunk := c1\<rparr>"
        have r1: "readNew opts (Some (base @ a)) w = Some (Inr w1)"
          unfolding u1 Some Inr w1_def by simp
        have o1: "offset w1 = n1" and p1: "pendingChunk w1 = c1" by (simp_all add: w1_def)
        have lt3: "offset w1 < length (base @ a @ b)" using b by (simp add: o1 n1_def)
        have d3: "utf8Decode (drop (offset w1) (base @ a @ b)) = tb"
          by (simp add: o1 n1_def tb_def)
        have "readNew opts (Some (base @ a @ b)) w1
          = map_option (map_sum id (\<lambda>v. v\<lparr>offset := n2, pendingChunk := c2\<rparr>))
              (liveLines opts w1 L2)"
          unfolding readNew_unfold [OF lt3] d3 p1 co(2) n2_def L2_def c1_def [symmetric] ..
        also have "liveLines opts w1 L2
          = map_option (map_sum id (\<lambda>v. v\<lparr>offset := n1, pendingChunk := c1\<rparr>))
              (liveLines opts w' L2)"
          unfolding w1_def by (rule liveLines_frame)
        finally have r2: "readNew opts (Some (base @ a @ b)) w1
          = map_option (map_sum id (\<lambda>v. v\<lparr>offset := n2, pendingChunk := c2\<rparr>))
              (liveLines opts w' L2)"
        proof (cases "liveLines opts w' L2")
          case None
          then show ?thesis
            using \<open>readNew opts (Some (base @ a @ b)) w1 = _\<close>
              \<open>liveLines opts w1 L2 = _\<close> by simp
        next
          case (Some y)
          then show ?thesis
            using \<open>readNew opts (Some (base @ a @ b)) w1 = _\<close>
              \<open>liveLines opts w1 L2 = _\<close> by (cases y) simp_all
        qed
        have "readNew opts (Some (base @ a @ b)) w
          = map_option (map_sum id (\<lambda>v. v\<lparr>offset := n2, pendingChunk := c2\<rparr>))
              (liveLines opts w' L2)"
          unfolding u2 liveLines_append Some Inr by simp
        with r1 r2 show ?thesis by simp
      qed
    qed
  qed
qed

text \<open>A property that every line keeps, every read keeps.\<close>

lemma readNew_invariant:
  assumes "readNew opts file w = Some (Inr w')" and "P w"
    and "\<And>v n c. P v \<Longrightarrow> P (v\<lparr>offset := n, pendingChunk := c\<rparr>)"
    and "\<And>v l v'. P v \<Longrightarrow> liveLine opts v l = Inr v' \<Longrightarrow> P v'"
  shows "P w'"
proof (cases "file")
  case None
  with assms(1,2) show ?thesis by (simp add: readNew_def)
next
  case (Some bytes)
  show ?thesis
  proof (cases "length bytes \<le> offset w")
    case True
    with assms(1,2) Some show ?thesis by (simp add: readNew_def)
  next
    case False
    define pieces where
      "pieces = splitLines [] (pendingChunk w @ utf8Decode (drop (offset w) bytes))"
    have f: "liveLines opts (w\<lparr>offset := length bytes, pendingChunk := last pieces\<rparr>)
            (butlast pieces) = Some (Inr w')"
      using assms(1) Some False by (simp add: readNew_def Let_def pieces_def)
    have "P (w\<lparr>offset := length bytes, pendingChunk := last pieces\<rparr>)"
      using assms(2) by (rule assms(3))
    with f show ?thesis using assms(4) by (rule liveLines_invariant)
  qed
qed

section \<open>Gating\<close>

lemma list_all_mapAdjust:
  assumes "list_all (P \<circ> snd) sm" and "\<And>b. P b \<Longrightarrow> P (f b)"
  shows "list_all (P \<circ> snd) (mapAdjust k f sm)"
  using assms by (induction sm) auto

lemma gatedRecord_sighting:
  "inRaidWindow rule t = Inr True \<Longrightarrow> gatedRecord rule (sighting p t)"
  by (simp add: gatedRecord_def sighting_def)

lemma gatedRecord_widen:
  "inRaidWindow rule t = Inr True \<Longrightarrow> gatedRecord rule e \<Longrightarrow> gatedRecord rule (widen t e)"
  by (simp add: gatedRecord_def widen_def Let_def)

lemma gatedRecord_widenLive:
  "inRaidWindow rule t = Inr True \<Longrightarrow> gatedRecord rule e \<Longrightarrow> gatedRecord rule (widenLive t e)"
  by (simp add: gatedRecord_def widenLive_def)

lemma gated_upsert:
  assumes "inRaidWindow rule t = Inr True" and "list_all (gatedRecord rule \<circ> snd) am"
  shows "list_all (gatedRecord rule \<circ> snd) (upsert t am p)"
    and "list_all (gatedRecord rule \<circ> snd) (upsertLive t am p)"
  using assms
  by (auto simp: upsert_def upsertLive_def Let_def gatedRecord_sighting
        intro!: list_all_mapAdjust gatedRecord_widen gatedRecord_widenLive split: option.splits)

lemma gated_flush:
  assumes "inRaidWindow rule t = Inr True" and "list_all (gatedRecord rule \<circ> snd) am"
  shows "list_all (gatedRecord rule \<circ> snd) (foldl (upsert t) am ps)"
    and "list_all (gatedRecord rule \<circ> snd) (foldl (upsertLive t) am ps)"
  using assms by (induction ps arbitrary: am) (simp_all add: gated_upsert)

lemma gatedSession_flatten:
  "gatedSession (flatten b) \<longleftrightarrow>
     list_all (gatedLoot RAID_RULE (map normalizeZone APPROVED_ZONES)) (sessLoot b)
     \<and> list_all (gatedRecord RAID_RULE \<circ> snd) (roster b)
     \<and> list_all (\<lambda>z. isApprovedZone (Some z)) (sessZones b)"
  by (simp add: gatedSession_def flatten_def list_all_iff)

lemma getSession_gated:
  assumes "getSession d sm = Inr (key, sm')"
    and "list_all ((gatedSession \<circ> flatten) \<circ> snd) sm"
  shows "list_all ((gatedSession \<circ> flatten) \<circ> snd) sm'"
  using assms
  by (auto simp: getSession_def Let_def gatedSession_flatten
        split: jsdate.splits option.splits intro!: list_all_mapAdjust)

lemma keyset_mapAdjust: "fst ` set (mapAdjust k f xs) = fst ` set xs"
  by (metis keys_mapAdjust set_map)

lemma getSession_Valid:
  "getSession (Valid t) sm =
     Inr (take 10 (isoString t),
          mapAdjust (take 10 (isoString t))
            (\<lambda>s. if dateLess (sessLastSeen s) (Valid t) then s\<lparr>sessLastSeen := Valid t\<rparr> else s)
            (case map_of sm (take 10 (isoString t)) of
               Some s \<Rightarrow> sm
             | None \<Rightarrow>
                 sm @ [(take 10 (isoString t),
                        \<lparr>date = take 10 (isoString t), dayName = DAY_NAMES ! nat (WeekDay t),
                         roster = [], sessLoot = [], sessZones = [],
                         sessFirstSeen = Valid t, sessLastSeen = Valid t\<rparr>)]))"
  by (simp add: getSession_def Let_def)

lemma getSession_key:
  assumes "getSession d sm = Inr (key, sm')"
  shows "key \<in> fst ` set sm'"
proof -
  from assms obtain t where d: "d = Valid t" by (cases d) (auto simp: getSession_def)
  define K where "K = take 10 (isoString t)"
  define X where "X = (case map_of sm K of
               Some s \<Rightarrow> sm
             | None \<Rightarrow>
                 sm @ [(K,
                        \<lparr>date = K, dayName = DAY_NAMES ! nat (WeekDay t),
                         roster = [], sessLoot = [], sessZones = [],
                         sessFirstSeen = Valid t, sessLastSeen = Valid t\<rparr>)])"
  have "\<exists>f. Inr (K, mapAdjust K f X) = Inr (key, sm')"
    using assms unfolding d getSession_Valid K_def X_def by blast
  then obtain f where k: "key = K" and m: "sm' = mapAdjust K f X" by auto
  have "K \<in> fst ` set X"
  proof (cases "map_of sm K")
    case None
    then show ?thesis by (simp add: X_def)
  next
    case (Some b)
    then have "K \<in> fst ` set sm" by (metis domI dom_map_of_conv_image_fst)
    with Some show ?thesis by (simp add: X_def)
  qed
  then show ?thesis by (simp add: k m keyset_mapAdjust)
qed

lemma mapAdjust_hits:
  assumes "key \<in> fst ` set sm" and "\<And>b. ev \<in> set (sessLoot (f b))"
  shows "ev \<in> set (concat (map (sessLoot \<circ> snd) (mapAdjust key f sm)))"
  using assms by (induction sm) auto

lemma inRaidWindow_Valid: "inRaidWindow rule d = Inr True \<Longrightarrow> \<exists>t. d = Valid t"
  by (cases d) (auto simp: inRaidWindow_def)

lemma setAdd_all: "list_all P xs \<Longrightarrow> P x \<Longrightarrow> list_all P (setAdd x xs)"
  by (simp add: setAdd_def)

lemma autoWhoLine_gated:
  assumes "autoGated s" and "autoWhoLine s content = Inr s'"
  shows "autoGated s'"
proof (cases "content = whoSeparator")
  case True
  with assms show ?thesis by (simp add: autoWhoLine_def)
next
  case sep: False
  show ?thesis
  proof (cases "matchWhoFooter content")
    case None
    with assms sep show ?thesis
      by (auto simp: autoWhoLine_def autoGated_def split: option.splits)
  next
    case (Some whoZone)
    show ?thesis
    proof (cases "isApprovedZone (Some whoZone)")
      case False
      with assms sep Some show ?thesis by (auto simp: autoWhoLine_def autoGated_def)
    next
      case appr: True
      show ?thesis
      proof (cases "isInRaidWindow (whoBlockTime s)")
        case (Inl e)
        with assms sep Some appr show ?thesis by (simp add: autoWhoLine_def)
      next
        case (Inr inWin)
        show ?thesis
        proof (cases inWin)
          case False
          with assms sep Some appr Inr show ?thesis by (auto simp: autoWhoLine_def autoGated_def)
        next
          case True
          with Inr have win: "inRaidWindow RAID_RULE (whoBlockTime s) = Inr True"
            by (simp add: isInRaidWindow_def)
          show ?thesis
          proof (cases "getSession (whoBlockTime s) (sessionMap s)")
            case (Inl e)
            with assms sep Some appr Inr True show ?thesis by (simp add: autoWhoLine_def)
          next
            case gs: (Inr ks)
            obtain key sm where ks: "ks = (key, sm)" by (cases ks)
            have g: "list_all ((gatedSession \<circ> flatten) \<circ> snd) sm"
              using getSession_gated gs ks assms(1) unfolding autoGated_def by blast
            have s': "s' = s\<lparr>inWhoBlock := False,
                     sessionMap := mapAdjust key
                        (\<lambda>b. b\<lparr>sessZones := setAdd whoZone (sessZones b),
                                roster := foldl (upsert (whoBlockTime s)) (roster b) (whoPlayers s)\<rparr>)
                        sm\<rparr>"
              using assms(2) sep Some appr Inr True gs ks by (simp add: autoWhoLine_def)
            have "list_all ((gatedSession \<circ> flatten) \<circ> snd) (mapAdjust key
                        (\<lambda>b. b\<lparr>sessZones := setAdd whoZone (sessZones b),
                                roster := foldl (upsert (whoBlockTime s)) (roster b) (whoPlayers s)\<rparr>)
                        sm)"
              using g
            proof (rule list_all_mapAdjust)
              fix b :: "attendance session"
              assume "(gatedSession \<circ> flatten) b"
              then show "(gatedSession \<circ> flatten)
                   (b\<lparr>sessZones := setAdd whoZone (sessZones b),
                      roster := foldl (upsert (whoBlockTime s)) (roster b) (whoPlayers s)\<rparr>)"
                using appr gated_flush(1) [OF win]
                by (simp add: gatedSession_flatten setAdd_all)
            qed
            then show ?thesis by (simp add: s' autoGated_def)
          qed
        qed
      qed
    qed
  qed
qed

lemma lootOf_gated:
  assumes "lootOf character zn ts content = Some ev"
    and "inRaidWindow rule ts = Inr True" and "approvedBy filters zn"
  shows "gatedLoot rule filters ev"
  using assms
  by (auto simp: lootOf_def gatedLoot_def split: option.splits if_splits)

lemma autoLootLine_gated:
  assumes "autoGated s" and "autoLootLine opts s ts content = Inr s'"
  shows "autoGated s'"
proof (cases "isInRaidWindow ts")
  case (Inl e)
  with assms show ?thesis by (simp add: autoLootLine_def)
next
  case (Inr inWin)
  show ?thesis
  proof (cases "\<not> inWin \<or> \<not> isApprovedZone (currentZone s)")
    case True
    with assms Inr show ?thesis by (auto simp: autoLootLine_def)
  next
    case False
    then have win: "inRaidWindow RAID_RULE ts = Inr True"
      and appr: "isApprovedZone (currentZone s)"
      using Inr by (simp_all add: isInRaidWindow_def)
    show ?thesis
    proof (cases "currentZone s")
      case None
      with assms Inr False show ?thesis by (simp add: autoLootLine_def)
    next
      case (Some z)
      show ?thesis
      proof (cases "getSession ts (sessionMap s)")
        case (Inl e)
        with assms Inr False Some show ?thesis by (simp add: autoLootLine_def)
      next
        case gs: (Inr ks)
        obtain key sm where ks: "ks = (key, sm)" by (cases ks)
        have g: "list_all ((gatedSession \<circ> flatten) \<circ> snd) sm"
          using getSession_gated gs ks assms(1) unfolding autoGated_def by blast
        define f where "f = (\<lambda>b :: attendance session.
             (case lootOf (characterName opts) (currentZone s) ts content of
                None \<Rightarrow> b\<lparr>sessZones := setAdd z (sessZones b)\<rparr>
              | Some ev \<Rightarrow> b\<lparr>sessZones := setAdd z (sessZones b),
                              sessLoot := sessLoot b @ [ev]\<rparr>))"
        have s': "s' = s\<lparr>sessionMap := mapAdjust key f sm\<rparr>"
          using assms(2) Inr False Some gs ks by (simp add: autoLootLine_def f_def)
        have "list_all ((gatedSession \<circ> flatten) \<circ> snd) (mapAdjust key f sm)"
          using g
        proof (rule list_all_mapAdjust)
          fix b :: "attendance session"
          assume b: "(gatedSession \<circ> flatten) b"
          show "(gatedSession \<circ> flatten) (f b)"
          proof (cases "lootOf (characterName opts) (currentZone s) ts content")
            case None
            with b appr Some show ?thesis
              by (simp add: f_def gatedSession_flatten setAdd_all)
          next
            case ev: (Some ev)
            have "gatedLoot RAID_RULE (map normalizeZone APPROVED_ZONES) ev"
              using lootOf_gated [OF ev win] appr by (simp add: isApprovedZone_def)
            with b appr Some ev show ?thesis
              by (simp add: f_def gatedSession_flatten setAdd_all)
          qed
        qed
        then show ?thesis by (simp add: s' autoGated_def)
      qed
    qed
  qed
qed

lemma autoClassify_gated:
  assumes "autoGated s" and "autoClassify opts s ts content = Inr s'"
  shows "autoGated s'"
proof (cases "matchZoneEntry content")
  case (Some z)
  with assms(2) have "s' = s\<lparr>currentZone := Some z, inWhoBlock := False\<rparr>"
    by (simp add: autoClassify_def)
  with assms(1) show ?thesis by (simp add: autoGated_def)
next
  case None
  show ?thesis
  proof (cases "content = whoStart")
    case True
    with assms(2) None have "s' = s \<or> s' = s\<lparr>inWhoBlock := True, whoBlockTime := ts, whoPlayers := []\<rparr>"
      by (cases "isInRaidWindow ts") (auto simp: autoClassify_def split: if_splits)
    with assms(1) show ?thesis by (auto simp: autoGated_def)
  next
    case False
    show ?thesis
    proof (cases "inWhoBlock s")
      case True
      with assms(2) None False have "autoWhoLine s content = Inr s'"
        by (simp add: autoClassify_def)
      with assms(1) show ?thesis by (rule autoWhoLine_gated)
    next
      case out: False
      with assms(2) None False have "autoLootLine opts s ts content = Inr s'"
        by (simp add: autoClassify_def)
      with assms(1) show ?thesis by (rule autoLootLine_gated)
    qed
  qed
qed

lemma autoLine_gated:
  assumes "autoGated s" and "autoLine opts s l = Inr s'"
  shows "autoGated s'"
proof -
  have c: "autoGated (s\<lparr>linesRead := linesRead s + 1\<rparr>)"
    using assms(1) by (simp add: autoGated_def)
  show ?thesis
  proof (cases "matchLine l")
    case None
    with assms(2) c show ?thesis by (auto simp: autoLine_def Let_def)
  next
    case (Some tc)
    obtain tsStr content where tc: "tc = (tsStr, content)" by (cases tc)
    show ?thesis
    proof (cases "parseEQDateUTC (timezone opts) tsStr")
      case (Inl e)
      with assms(2) Some tc show ?thesis by (simp add: autoLine_def Let_def)
    next
      case (Inr d)
      show ?thesis
      proof (cases d)
        case None
        with assms(2) Some tc Inr c show ?thesis by (auto simp: autoLine_def Let_def)
      next
        case ts: (Some utcTs)
        have "autoClassify opts (s\<lparr>linesRead := linesRead s + 1\<rparr>) utcTs content = Inr s'"
          using assms(2) Some tc Inr ts by (simp add: autoLine_def Let_def)
        with c show ?thesis by (rule autoClassify_gated)
      qed
    qed
  qed
qed

lemma foldE_invariant:
  assumes "P s" and "foldE f s xs = Inr s'" and "\<And>a x b. P a \<Longrightarrow> f a x = Inr b \<Longrightarrow> P b"
  shows "P s'"
  using assms
proof (induction xs arbitrary: s)
  case Nil
  then show ?case by simp
next
  case (Cons x xs)
  from Cons.prems(2) obtain s1 where 1: "f s x = Inr s1" and 2: "foldE f s1 xs = Inr s'"
    by (auto split: sum.splits)
  have "P s1" using Cons.prems(1) 1 by (rule Cons.prems(3))
  then show ?case using 2 Cons.prems(3) by (rule Cons.IH)
qed

lemma auto_sessions_gated:
  assumes "autoParseLog opts ls = Inr (sessions, n)"
  shows "list_all gatedSession sessions"
proof -
  from assms obtain s where s: "foldE (autoLine opts) autoInit ls = Inr s"
    and r: "sessions = autoSessions s"
    by (auto simp: autoParseLog_def split: sum.splits)
  have "autoGated autoInit" by (simp add: autoGated_def autoInit_def)
  then have "autoGated s" using s autoLine_gated by (rule foldE_invariant)
  then show ?thesis
    unfolding r autoSessions_def autoGated_def by (auto simp: list_all_iff)
qed

lemma liveGated_frame:
  "liveGated opts (w\<lparr>offset := n, pendingChunk := c\<rparr>) = liveGated opts w"
  by (simp add: liveGated_def)

lemma liveWhoLine_gated:
  assumes "liveGated opts w" and "inWhoBlock w" and "liveWhoLine opts w content = Inr w'"
  shows "liveGated opts w'"
proof (cases "content = whoSeparator")
  case True
  with assms show ?thesis by (simp add: liveWhoLine_def)
next
  case sep: False
  show ?thesis
  proof (cases "matchWhoFooter content")
    case None
    with assms sep show ?thesis
      by (cases "matchWhoPlayer content") (auto simp: liveWhoLine_def liveGated_def)
  next
    case (Some whoZone)
    show ?thesis
    proof (cases "approvedBy (approvedZoneFilters opts) (Some whoZone)")
      case False
      with assms sep Some show ?thesis by (auto simp: liveWhoLine_def liveGated_def)
    next
      case appr: True
      have win: "inRaidWindow (watcherRule opts) (whoBlockTime w) = Inr True"
        using assms(1,2) by (simp add: liveGated_def)
      show ?thesis
      proof (cases "toISOString (whoBlockTime w)")
        case (Inl e)
        with assms sep Some appr show ?thesis by (simp add: liveWhoLine_def Let_def)
      next
        case (Inr isoTs)
        define am where "am = foldl (upsertLive (whoBlockTime w)) (attendanceMap w) (whoPlayers w)"
        have w': "w' = w\<lparr>inWhoBlock := False, attendanceMap := am,
                   emitted := emitted w @
                     [AttendanceEvent whoZone (length am)
                        (newPlayers (attendanceMap w) (whoPlayers w)) (map fst am) isoTs]\<rparr>"
          using assms(3) sep Some appr Inr by (simp add: liveWhoLine_def Let_def am_def)
        have "list_all (gatedRecord (watcherRule opts) \<circ> snd) am"
          unfolding am_def using win assms(1) by (intro gated_flush(2)) (simp_all add: liveGated_def)
        with assms(1) appr show ?thesis by (simp add: w' liveGated_def)
      qed
    qed
  qed
qed

lemma liveLootLine_gated:
  assumes "liveGated opts w" and "liveLootLine opts w ts content = Inr w'"
  shows "liveGated opts w'"
proof (cases "inRaidWindow (watcherRule opts) ts")
  case (Inl e)
  with assms show ?thesis by (simp add: liveLootLine_def)
next
  case (Inr inWin)
  show ?thesis
  proof (cases "\<not> inWin \<or> \<not> approvedBy (approvedZoneFilters opts) (currentZone w)")
    case True
    with assms Inr show ?thesis by (auto simp: liveLootLine_def)
  next
    case False
    then have win: "inRaidWindow (watcherRule opts) ts = Inr True"
      and appr: "approvedBy (approvedZoneFilters opts) (currentZone w)"
      using Inr by simp_all
    show ?thesis
    proof (cases "lootOf (characterName opts) (currentZone w) ts content")
      case None
      with assms Inr False show ?thesis by (simp add: liveLootLine_def)
    next
      case (Some ev)
      have g: "gatedLoot (watcherRule opts) (approvedZoneFilters opts) ev"
        using Some win appr by (rule lootOf_gated)
      show ?thesis
      proof (cases "toISOString ts")
        case (Inl e)
        with assms Inr False Some show ?thesis by (simp add: liveLootLine_def)
      next
        case iso: (Inr isoTs)
        have "w' = w\<lparr>lootEvents := lootEvents w @ [ev],
                      emitted := emitted w @
                        [LootEmitted (playerName ev) (itemName ev) isoTs (zone ev)]\<rparr>"
          using assms(2) Inr False Some iso by (simp add: liveLootLine_def)
        with assms(1) g show ?thesis by (simp add: liveGated_def gatedLoot_def)
      qed
    qed
  qed
qed

lemma liveClassify_gated:
  assumes "liveGated opts w" and "liveClassify opts w ts content = Inr w'"
  shows "liveGated opts w'"
proof (cases "matchZoneEntry content")
  case (Some z)
  with assms(2) obtain isoTs where
    "w' = w\<lparr>currentZone := Some z, inWhoBlock := False, liveZones := setAdd z (liveZones w),
            emitted := emitted w @ [ZoneEvent z isoTs]\<rparr>"
    by (cases "toISOString ts") (auto simp: liveClassify_def)
  with assms(1) show ?thesis by (simp add: liveGated_def)
next
  case None
  show ?thesis
  proof (cases "content = whoStart")
    case True
    show ?thesis
    proof (cases "inRaidWindow (watcherRule opts) ts")
      case (Inl e)
      with assms(2) None True show ?thesis by (simp add: liveClassify_def)
    next
      case (Inr inWin)
      show ?thesis
      proof (cases inWin)
        case False
        with assms None True Inr show ?thesis by (simp add: liveClassify_def)
      next
        case win: True
        with assms(2) None True Inr
        have "w' = w\<lparr>inWhoBlock := True, whoBlockTime := ts, whoPlayers := []\<rparr>"
          by (simp add: liveClassify_def)
        with assms(1) Inr win show ?thesis by (simp add: liveGated_def)
      qed
    qed
  next
    case False
    show ?thesis
    proof (cases "inWhoBlock w")
      case True
      with assms(2) None False have "liveWhoLine opts w content = Inr w'"
        by (simp add: liveClassify_def)
      with assms(1) True show ?thesis by (rule liveWhoLine_gated)
    next
      case out: False
      with assms(2) None False have "liveLootLine opts w ts content = Inr w'"
        by (simp add: liveClassify_def)
      with assms(1) show ?thesis by (rule liveLootLine_gated)
    qed
  qed
qed

lemma liveLine_gated:
  assumes "liveGated opts w" and "liveLine opts w l = Inr w'"
  shows "liveGated opts w'"
proof (cases "matchLine l")
  case None
  with assms show ?thesis by (simp add: liveLine_def)
next
  case (Some tc)
  obtain tsStr content where tc: "tc = (tsStr, content)" by (cases tc)
  show ?thesis
  proof (cases "parseEQDateUTC (timezone opts) tsStr")
    case (Inl e)
    with assms(2) Some tc show ?thesis by (simp add: liveLine_def)
  next
    case (Inr d)
    show ?thesis
    proof (cases d)
      case None
      with assms Some tc Inr show ?thesis by (simp add: liveLine_def)
    next
      case ts: (Some utcTs)
      have "liveClassify opts w utcTs content = Inr w'"
        using assms(2) Some tc Inr ts by (simp add: liveLine_def)
      with assms(1) show ?thesis by (rule liveClassify_gated)
    qed
  qed
qed

lemma readNew_gated:
  assumes "liveGated opts w" and "readNew opts file w = Some (Inr w')"
  shows "liveGated opts w'"
  using assms(2,1)
proof (rule readNew_invariant)
  show "\<And>v n c. liveGated opts v \<Longrightarrow> liveGated opts (v\<lparr>offset := n, pendingChunk := c\<rparr>)"
    by (simp add: liveGated_frame)
  show "\<And>v l v'. liveGated opts v \<Longrightarrow> liveLine opts v l = Inr v' \<Longrightarrow> liveGated opts v'"
    by (rule liveLine_gated)
qed

lemma matchOtherLoot_Some:
  "matchOtherLoot content = Some x \<Longrightarrow> \<exists>r. content = ''--'' @ r"
  by (auto simp: matchOtherLoot_def bind_eq_Some_conv stripPrefix_Some split: if_splits)

lemma otherLoot_not_zoneEntry:
  "matchOtherLoot content = Some x \<Longrightarrow> matchZoneEntry content = None"
  by (drule matchOtherLoot_Some) (auto simp: matchZoneEntry_def)

lemma otherLoot_not_whoStart: "matchOtherLoot content = Some x \<Longrightarrow> content \<noteq> whoStart"
  by (drule matchOtherLoot_Some) (auto simp: whoStart_def)

lemma otherLoot_not_selfLoot: "matchOtherLoot content = Some x \<Longrightarrow> matchSelfLoot content = None"
  using selfLoot_not_otherLoot by (cases "matchSelfLoot content") auto

lemma lootOf_other:
  assumes "matchOtherLoot content = Some (who, item)"
  shows "lootOf character zn ts content
           = Some \<lparr>playerName = Some who, itemName = item, timestamp = ts, zone = zn\<rparr>"
  using assms otherLoot_not_selfLoot [OF assms] by (simp add: lootOf_def)

lemma live_loot_accepted:
  assumes "matchLine line = Some (tsStr, content)"
    and "parseEQDateUTC (timezone opts) tsStr = Inr (Some ts)"
    and "matchOtherLoot content = Some (who, item)"
    and "\<not> inWhoBlock w"
    and "inRaidWindow (watcherRule opts) ts = Inr True"
    and "approvedBy (approvedZoneFilters opts) (currentZone w)"
  shows "\<exists>w'. liveLine opts w line = Inr w'
            \<and> lootEvents w' = lootEvents w @
                 [\<lparr>playerName = Some who, itemName = item, timestamp = ts,
                   zone = currentZone w\<rparr>]"
proof -
  obtain t where t: "ts = Valid t" using inRaidWindow_Valid [OF assms(5)] by blast
  have "liveLine opts w line = liveLootLine opts w ts content"
    using assms(1,2,4) otherLoot_not_zoneEntry [OF assms(3)] otherLoot_not_whoStart [OF assms(3)]
    by (simp add: liveLine_def liveClassify_def)
  then show ?thesis
    using assms(5,6) lootOf_other [OF assms(3)] t
    by (simp add: liveLootLine_def toISOString_def)
qed

lemma auto_loot_accepted:
  assumes "matchLine line = Some (tsStr, content)"
    and "parseEQDateUTC (timezone opts) tsStr = Inr (Some ts)"
    and "matchOtherLoot content = Some (who, item)"
    and "\<not> inWhoBlock s"
    and "isInRaidWindow ts = Inr True"
    and "isApprovedZone (currentZone s)"
  shows "\<exists>s'. autoLine opts s line = Inr s'
            \<and> \<lparr>playerName = Some who, itemName = item, timestamp = ts,
                 zone = currentZone s\<rparr> \<in> set (allLoot s')"
proof -
  define ev where "ev = \<lparr>playerName = Some who, itemName = item, timestamp = ts,
                 zone = currentZone s\<rparr>"
  define s1 where "s1 = s\<lparr>linesRead := linesRead s + 1\<rparr>"
  obtain t where t: "ts = Valid t"
    using inRaidWindow_Valid assms(5) unfolding isInRaidWindow_def by blast
  obtain z where z: "currentZone s = Some z"
    using assms(6) by (cases "currentZone s") (auto simp: isApprovedZone_def approvedBy_def)
  obtain key sm where gs: "getSession ts (sessionMap s) = Inr (key, sm)"
    unfolding t getSession_Valid by blast
  have 1: "autoLine opts s line = autoLootLine opts s1 ts content"
    using assms(1,2,4) otherLoot_not_zoneEntry [OF assms(3)] otherLoot_not_whoStart [OF assms(3)]
    by (simp add: autoLine_def autoClassify_def Let_def s1_def)
  have 2: "autoLootLine opts s1 ts content
         = Inr (s1\<lparr>sessionMap := mapAdjust key
                   (\<lambda>b. b\<lparr>sessZones := setAdd z (sessZones b), sessLoot := sessLoot b @ [ev]\<rparr>)
                   sm\<rparr>)"
    using assms(5,6) z gs lootOf_other [OF assms(3)]
    by (simp add: autoLootLine_def s1_def ev_def)
  have "ev \<in> set (concat (map (sessLoot \<circ> snd) (mapAdjust key
                   (\<lambda>b. b\<lparr>sessZones := setAdd z (sessZones b), sessLoot := sessLoot b @ [ev]\<rparr>)
                   sm)))"
    using getSession_key [OF gs] by (rule mapAdjust_hits) simp
  then show ?thesis
    unfolding 1 2 ev_def [symmetric] by (simp add: allLoot_def)
qed

section \<open>Aborted roster blocks\<close>

lemma whoLine_agree:
  assumes "agreeBatch s t" and "inWhoBlock s"
  shows "agreeBatch (whoLine zf s c) (whoLine zf t c)"
  using assms
  by (simp add: whoLine_def agreeBatch_def agreeScan_def split: option.split)

lemma lootLine_agree:
  assumes "agreeBatch s t" and "\<not> inWhoBlock s"
  shows "agreeBatch (lootLine zf ch s ts c) (lootLine zf ch t ts c)"
  using assms
  by (simp add: lootLine_def agreeBatch_def agreeScan_def split: option.split)

lemma classify_agree:
  assumes "agreeBatch s t"
  shows "agreeBatch (classify opts s ts c) (classify opts t ts c)"
proof (cases "matchZoneEntry c")
  case (Some z)
  with assms show ?thesis by (simp add: classify_def agreeBatch_def agreeScan_def)
next
  case None
  show ?thesis
  proof (cases "c = whoStart")
    case True
    with assms None show ?thesis by (simp add: classify_def agreeBatch_def agreeScan_def)
  next
    case False
    have io: "inWhoBlock t = inWhoBlock s" using assms by (simp add: agreeBatch_def agreeScan_def)
    show ?thesis
    proof (cases "inWhoBlock s")
      case True
      with None False io show ?thesis
        using whoLine_agree [OF assms True] by (simp add: classify_def)
    next
      case out: False
      with None False io show ?thesis
        using lootLine_agree [OF assms out] by (simp add: classify_def)
    qed
  qed
qed

lemma agreeBatch_count:
  "agreeBatch s t \<Longrightarrow> agreeBatch (s\<lparr>lineCount := n\<rparr>) (t\<lparr>lineCount := m\<rparr>)"
  by (simp add: agreeBatch_def agreeScan_def)

lemma processLine_agree:
  assumes "agreeBatch s t"
  shows "agreeBatch (processLine h opts s l) (processLine h opts t l)"
proof -
  let ?s = "s\<lparr>lineCount := lineCount s + 1\<rparr>" and ?t = "t\<lparr>lineCount := lineCount t + 1\<rparr>"
  have c: "agreeBatch ?s ?t" using assms by (rule agreeBatch_count)
  show ?thesis
  proof (cases "matchLine l")
    case None
    with c show ?thesis by (simp add: processLine_def Let_def)
  next
    case (Some tc)
    obtain tsStr content where tc: "tc = (tsStr, content)" by (cases tc)
    show ?thesis
    proof (cases "parseEQDate h tsStr")
      case None
      with c Some tc show ?thesis by (simp add: processLine_def Let_def)
    next
      case ts: (Some ts)
      show ?thesis
      proof (cases "dateLess ts (startTime opts) \<or> dateLess (endTime opts) ts")
        case True
        with c Some tc ts show ?thesis by (simp add: processLine_def Let_def)
      next
        case False
        with Some tc ts show ?thesis
          using classify_agree [OF c] by (simp add: processLine_def Let_def)
      qed
    qed
  qed
qed

lemma foldl_processLine_agree:
  "agreeBatch s t \<Longrightarrow>
     agreeBatch (foldl (processLine h opts) s ls) (foldl (processLine h opts) t ls)"
  by (induction ls arbitrary: s t) (simp_all add: processLine_agree)

lemma whoStart_not_zoneEntry: "matchZoneEntry whoStart = None"
  by code_simp

lemma whoLine_in_block:
  assumes "matchWhoFooter c = None"
  shows "inWhoBlock (whoLine zf s c) = inWhoBlock s \<and> currentZone (whoLine zf s c) = currentZone s
       \<and> attendanceMap (whoLine zf s c) = attendanceMap s
       \<and> lootEvents (whoLine zf s c) = lootEvents s"
  using assms by (simp add: whoLine_def split: option.split)

lemma processLine_in_block:
  assumes "inWhoBlock s" and "\<not> isFooterLine l" and "\<not> isZoneEntryLine l"
  shows "inWhoBlock (processLine h opts s l)
       \<and> currentZone (processLine h opts s l) = currentZone s
       \<and> attendanceMap (processLine h opts s l) = attendanceMap s
       \<and> lootEvents (processLine h opts s l) = lootEvents s"
proof (cases "matchLine l")
  case None
  with assms(1) show ?thesis by (simp add: processLine_def Let_def)
next
  case (Some tc)
  obtain tsStr content where tc: "tc = (tsStr, content)" by (cases tc)
  have nf: "matchWhoFooter content = None" and nz: "matchZoneEntry content = None"
    using assms(2,3) Some tc by (simp_all add: isFooterLine_def isZoneEntryLine_def)
  show ?thesis
  proof (cases "parseEQDate h tsStr")
    case None
    with assms(1) Some tc show ?thesis by (simp add: processLine_def Let_def)
  next
    case ts: (Some ts)
    show ?thesis
    proof (cases "dateLess ts (startTime opts) \<or> dateLess (endTime opts) ts")
      case True
      with assms(1) Some tc ts show ?thesis by (simp add: processLine_def Let_def)
    next
      case False
      show ?thesis
      proof (cases "content = whoStart")
        case True
        with assms(1) Some tc ts False nz show ?thesis
          by (simp add: processLine_def Let_def classify_def)
      next
        case ns: False
        with assms(1) Some tc ts False nz show ?thesis
          using whoLine_in_block [OF nf, of "map normalizeZone (zones opts)"
              "s\<lparr>lineCount := lineCount s + 1\<rparr>"]
          by (simp add: processLine_def Let_def classify_def)
      qed
    qed
  qed
qed

lemma foldl_processLine_in_block:
  assumes "inWhoBlock s" and "\<forall>l \<in> set body. \<not> isFooterLine l \<and> \<not> isZoneEntryLine l"
  shows "inWhoBlock (foldl (processLine h opts) s body)
       \<and> currentZone (foldl (processLine h opts) s body) = currentZone s
       \<and> attendanceMap (foldl (processLine h opts) s body) = attendanceMap s
       \<and> lootEvents (foldl (processLine h opts) s body) = lootEvents s"
  using assms
proof (induction body arbitrary: s)
  case Nil
  then show ?case by simp
next
  case (Cons l ls)
  have 1: "inWhoBlock (processLine h opts s l)
       \<and> currentZone (processLine h opts s l) = currentZone s
       \<and> attendanceMap (processLine h opts s l) = attendanceMap s
       \<and> lootEvents (processLine h opts s l) = lootEvents s"
    using Cons.prems by (intro processLine_in_block) simp_all
  have "inWhoBlock (foldl (processLine h opts) (processLine h opts s l) ls)
       \<and> currentZone (foldl (processLine h opts) (processLine h opts s l) ls)
           = currentZone (processLine h opts s l)
       \<and> attendanceMap (foldl (processLine h opts) (processLine h opts s l) ls)
           = attendanceMap (processLine h opts s l)
       \<and> lootEvents (foldl (processLine h opts) (processLine h opts s l) ls)
           = lootEvents (processLine h opts s l)"
    using 1 Cons.prems by (intro Cons.IH) simp_all
  with 1 show ?case by simp
qed

lemma batch_aborted_block:
  assumes start: "matchLine start = Some (ts0, whoStart)" "parseEQDate h ts0 = Some t0"
      "\<not> dateLess t0 (startTime opts)" "\<not> dateLess (endTime opts) t0"
    and body: "\<forall>l \<in> set body. \<not> isFooterLine l \<and> \<not> isZoneEntryLine l"
    and z: "matchLine z = Some (tsz, cz)" "matchZoneEntry cz = Some zn"
      "parseEQDate h tsz = Some tz" "\<not> dateLess tz (startTime opts)" "\<not> dateLess (endTime opts) tz"
  shows "attendance (parseLog h opts (pre @ start # body @ z # rest))
           = attendance (parseLog h opts (pre @ z # rest))
       \<and> loot (parseLog h opts (pre @ start # body @ z # rest))
           = loot (parseLog h opts (pre @ z # rest))"
proof -
  define s0 where "s0 = foldl (processLine h opts) batchInit pre"
  define s1 where "s1 = processLine h opts s0 start"
  define s2 where "s2 = foldl (processLine h opts) s1 body"
  have o: "inWhoBlock s1 \<and> currentZone s1 = currentZone s0
         \<and> attendanceMap s1 = attendanceMap s0 \<and> lootEvents s1 = lootEvents s0"
    using start by (simp add: s1_def processLine_def Let_def classify_def whoStart_not_zoneEntry)
  then have k: "inWhoBlock s2 \<and> currentZone s2 = currentZone s1
         \<and> attendanceMap s2 = attendanceMap s1 \<and> lootEvents s2 = lootEvents s1"
    unfolding s2_def using body by (intro foldl_processLine_in_block) simp_all
  have zs: "\<And>s. processLine h opts s z
              = s\<lparr>lineCount := lineCount s + 1, currentZone := Some zn, inWhoBlock := False\<rparr>"
    using z by (simp add: processLine_def Let_def classify_def)
  have "agreeBatch (processLine h opts s2 z) (processLine h opts s0 z)"
    using o k by (simp add: zs agreeBatch_def agreeScan_def)
  then have "agreeBatch (foldl (processLine h opts) (processLine h opts s2 z) rest)
                        (foldl (processLine h opts) (processLine h opts s0 z) rest)"
    by (rule foldl_processLine_agree)
  moreover have "foldl (processLine h opts) batchInit (pre @ start # body @ z # rest)
                   = foldl (processLine h opts) (processLine h opts s2 z) rest"
    by (simp add: s0_def s1_def s2_def)
  moreover have "foldl (processLine h opts) batchInit (pre @ z # rest)
                   = foldl (processLine h opts) (processLine h opts s0 z) rest"
    by (simp add: s0_def)
  ultimately show ?thesis
    by (simp add: parseLog_def batchReturn_def agreeBatch_def)
qed

lemma foldE_Cons_Inr:
  "foldE f s (x # xs) = Inr r \<longleftrightarrow> (\<exists>m. f s x = Inr m \<and> foldE f m xs = Inr r)"
  by (cases "f s x") simp_all

lemma foldE_append_Inr:
  "foldE f s (xs @ ys) = Inr r \<longleftrightarrow> (\<exists>m. foldE f s xs = Inr m \<and> foldE f m ys = Inr r)"
  by (cases "foldE f s xs") (simp_all add: foldE_append)

lemma foldE_rel:
  assumes "R s t" and "\<And>a b x. R a b \<Longrightarrow> rel_sum (=) R (f a x) (f b x)"
  shows "rel_sum (=) R (foldE f s xs) (foldE f t xs)"
  using assms(1)
proof (induction xs arbitrary: s t)
  case Nil
  then show ?case by simp
next
  case (Cons x xs)
  have r: "rel_sum (=) R (f s x) (f t x)" using Cons.prems by (rule assms(2))
  show ?case
  proof (cases "f s x")
    case (Inl e)
    with r show ?thesis by (cases "f t x") simp_all
  next
    case (Inr a)
    with r obtain b where "f t x = Inr b" and "R a b" by (cases "f t x") simp_all
    with Inr show ?thesis using Cons.IH [of a b] by simp
  qed
qed

lemma autoWhoLine_agree:
  assumes "agreeAuto s t" and "inWhoBlock s"
  shows "rel_sum (=) agreeAuto (autoWhoLine s c) (autoWhoLine t c)"
proof -
  have e: "whoBlockTime t = whoBlockTime s" "whoPlayers t = whoPlayers s"
    "sessionMap t = sessionMap s"
    using assms by (simp_all add: agreeAuto_def agreeScan_def)
  show ?thesis
  proof (cases "c = whoSeparator")
    case True
    with assms(1) show ?thesis by (simp add: autoWhoLine_def)
  next
    case sep: False
    show ?thesis
    proof (cases "matchWhoFooter c")
      case None
      with assms sep show ?thesis
        by (cases "matchWhoPlayer c") (simp_all add: autoWhoLine_def agreeAuto_def agreeScan_def)
    next
      case (Some whoZone)
      show ?thesis
      proof (cases "isApprovedZone (Some whoZone)")
        case False
        with assms sep Some show ?thesis
          by (simp add: autoWhoLine_def agreeAuto_def agreeScan_def)
      next
        case appr: True
        show ?thesis
        proof (cases "isInRaidWindow (whoBlockTime s)")
          case (Inl err)
          with sep Some appr e show ?thesis by (simp add: autoWhoLine_def)
        next
          case (Inr inWin)
          show ?thesis
          proof (cases "getSession (whoBlockTime s) (sessionMap s)")
            case (Inl err)
            with assms sep Some appr e Inr show ?thesis
              by (simp add: autoWhoLine_def agreeAuto_def agreeScan_def)
          next
            case gs: (Inr ks)
            obtain key sm where ks: "ks = (key, sm)" by (cases ks)
            with assms sep Some appr e Inr gs show ?thesis
              by (simp add: autoWhoLine_def agreeAuto_def agreeScan_def)
          qed
        qed
      qed
    qed
  qed
qed

lemma autoLootLine_agree:
  assumes "agreeAuto s t"
  shows "rel_sum (=) agreeAuto (autoLootLine opts s ts c) (autoLootLine opts t ts c)"
proof -
  have e: "currentZone t = currentZone s" "sessionMap t = sessionMap s"
    using assms by (simp_all add: agreeAuto_def agreeScan_def)
  show ?thesis
  proof (cases "isInRaidWindow ts")
    case (Inl err)
    then show ?thesis by (simp add: autoLootLine_def)
  next
    case (Inr inWin)
    show ?thesis
    proof (cases "\<not> inWin \<or> \<not> isApprovedZone (currentZone s)")
      case True
      with assms Inr e show ?thesis by (auto simp: autoLootLine_def)
    next
      case False
      show ?thesis
      proof (cases "currentZone s")
        case None
        with assms Inr False e show ?thesis by (simp add: autoLootLine_def)
      next
        case (Some z)
        show ?thesis
        proof (cases "getSession ts (sessionMap s)")
          case (Inl err)
          with Inr False e Some show ?thesis by (simp add: autoLootLine_def)
        next
          case gs: (Inr ks)
          obtain key sm where ks: "ks = (key, sm)" by (cases ks)
          with assms Inr False e Some gs show ?thesis
            by (simp add: autoLootLine_def agreeAuto_def agreeScan_def)
        qed
      qed
    qed
  qed
qed

lemma autoClassify_agree:
  assumes "agreeAuto s t"
  shows "rel_sum (=) agreeAuto (autoClassify opts s ts c) (autoClassify opts t ts c)"
proof (cases "matchZoneEntry c")
  case (Some z)
  with assms show ?thesis by (simp add: autoClassify_def agreeAuto_def agreeScan_def)
next
  case None
  show ?thesis
  proof (cases "c = whoStart")
    case True
    show ?thesis
    proof (cases "isInRaidWindow ts")
      case (Inl err)
      with None True show ?thesis by (simp add: autoClassify_def)
    next
      case (Inr inWin)
      with assms None True show ?thesis
        by (simp add: autoClassify_def agreeAuto_def agreeScan_def)
    qed
  next
    case False
    have io: "inWhoBlock t = inWhoBlock s" using assms by (simp add: agreeAuto_def agreeScan_def)
    show ?thesis
    proof (cases "inWhoBlock s")
      case True
      with None False io show ?thesis
        using autoWhoLine_agree [OF assms True] by (simp add: autoClassify_def)
    next
      case out: False
      with None False io show ?thesis
        using autoLootLine_agree [OF assms] by (simp add: autoClassify_def)
    qed
  qed
qed

lemma autoLine_agree:
  assumes "agreeAuto s t"
  shows "rel_sum (=) agreeAuto (autoLine opts s l) (autoLine opts t l)"
proof -
  let ?s = "s\<lparr>linesRead := linesRead s + 1\<rparr>" and ?t = "t\<lparr>linesRead := linesRead t + 1\<rparr>"
  have c: "agreeAuto ?s ?t" using assms by (simp add: agreeAuto_def agreeScan_def)
  show ?thesis
  proof (cases "matchLine l")
    case None
    with c show ?thesis by (simp add: autoLine_def Let_def)
  next
    case (Some tc)
    obtain tsStr content where tc: "tc = (tsStr, content)" by (cases tc)
    show ?thesis
    proof (cases "parseEQDateUTC (timezone opts) tsStr")
      case (Inl err)
      with Some tc show ?thesis by (simp add: autoLine_def Let_def)
    next
      case (Inr d)
      show ?thesis
      proof (cases d)
        case None
        with c Some tc Inr show ?thesis by (simp add: autoLine_def Let_def)
      next
        case ts: (Some utcTs)
        with Some tc Inr show ?thesis
          using autoClassify_agree [OF c] by (simp add: autoLine_def Let_def)
      qed
    qed
  qed
qed

lemma autoWhoLine_in_block:
  assumes "matchWhoFooter c = None" and "autoWhoLine s c = Inr s'"
  shows "inWhoBlock s' = inWhoBlock s \<and> currentZone s' = currentZone s
       \<and> sessionMap s' = sessionMap s"
  using assms by (cases "matchWhoPlayer c") (auto simp: autoWhoLine_def split: if_splits)

lemma autoLine_in_block:
  assumes "inWhoBlock s" and "\<not> isFooterLine l" and "\<not> isZoneEntryLine l"
    and "autoLine opts s l = Inr s'"
  shows "inWhoBlock s' \<and> currentZone s' = currentZone s \<and> sessionMap s' = sessionMap s"
proof (cases "matchLine l")
  case None
  with assms(1,4) show ?thesis by (auto simp: autoLine_def Let_def)
next
  case (Some tc)
  obtain tsStr content where tc: "tc = (tsStr, content)" by (cases tc)
  have nf: "matchWhoFooter content = None" and nz: "matchZoneEntry content = None"
    using assms(2,3) Some tc by (simp_all add: isFooterLine_def isZoneEntryLine_def)
  show ?thesis
  proof (cases "parseEQDateUTC (timezone opts) tsStr")
    case (Inl e)
    with assms(4) Some tc show ?thesis by (simp add: autoLine_def Let_def)
  next
    case (Inr d)
    show ?thesis
    proof (cases d)
      case None
      with assms(1,4) Some tc Inr show ?thesis by (auto simp: autoLine_def Let_def)
    next
      case ts: (Some utcTs)
      let ?s = "s\<lparr>linesRead := linesRead s + 1\<rparr>"
      have c: "autoClassify opts ?s utcTs content = Inr s'"
        using assms(4) Some tc Inr ts by (simp add: autoLine_def Let_def)
      show ?thesis
      proof (cases "content = whoStart")
        case True
        with c nz assms(1) show ?thesis
          by (cases "isInRaidWindow utcTs") (auto simp: autoClassify_def split: if_splits)
      next
        case False
        with c nz assms(1) have "autoWhoLine ?s content = Inr s'"
          by (simp add: autoClassify_def)
        from autoWhoLine_in_block [OF nf this] assms(1) show ?thesis by simp
      qed
    qed
  qed
qed

lemma foldE_autoLine_in_block:
  assumes "inWhoBlock s" and "\<forall>l \<in> set body. \<not> isFooterLine l \<and> \<not> isZoneEntryLine l"
    and "foldE (autoLine opts) s body = Inr s'"
  shows "inWhoBlock s' \<and> currentZone s' = currentZone s \<and> sessionMap s' = sessionMap s"
  using assms
proof (induction body arbitrary: s)
  case Nil
  then show ?case by simp
next
  case (Cons l ls)
  from Cons.prems(3) [unfolded foldE_Cons_Inr] obtain m where m: "autoLine opts s l = Inr m"
    and r: "foldE (autoLine opts) m ls = Inr s'"
    by blast
  have 1: "inWhoBlock m \<and> currentZone m = currentZone s \<and> sessionMap m = sessionMap s"
    using Cons.prems(1,2) m by (intro autoLine_in_block [of s l opts m]) simp_all
  have "inWhoBlock s' \<and> currentZone s' = currentZone m \<and> sessionMap s' = sessionMap m"
    using 1 Cons.prems(2) r by (intro Cons.IH) simp_all
  with 1 show ?case by simp
qed

lemma auto_aborted_block:
  assumes start: "matchLine start = Some (ts0, whoStart)"
      "parseEQDateUTC (timezone opts) ts0 = Inr (Some t0)" "isInRaidWindow t0 = Inr True"
    and body: "\<forall>l \<in> set body. \<not> isFooterLine l \<and> \<not> isZoneEntryLine l"
    and z: "matchLine z = Some (tsz, cz)" "matchZoneEntry cz = Some zn"
      "parseEQDateUTC (timezone opts) tsz = Inr (Some tz)"
    and run: "autoParseLog opts (pre @ start # body @ z # rest) = Inr (sessions, n)"
  shows "\<exists>n'. autoParseLog opts (pre @ z # rest) = Inr (sessions, n')"
proof -
  from run obtain sA where A: "foldE (autoLine opts) autoInit (pre @ start # body @ z # rest) = Inr sA"
    and sess: "sessions = autoSessions sA"
    by (auto simp: autoParseLog_def split: sum.splits)
  from A [unfolded foldE_append_Inr foldE_Cons_Inr]
  obtain s0 s1 s2 s3 where s0: "foldE (autoLine opts) autoInit pre = Inr s0"
    and s1: "autoLine opts s0 start = Inr s1"
    and s2: "foldE (autoLine opts) s1 body = Inr s2"
    and s3: "autoLine opts s2 z = Inr s3"
    and rA: "foldE (autoLine opts) s3 rest = Inr sA"
    by blast
  have o: "inWhoBlock s1 \<and> currentZone s1 = currentZone s0 \<and> sessionMap s1 = sessionMap s0"
    using start s1
    by (auto simp: autoLine_def Let_def autoClassify_def whoStart_not_zoneEntry)
  then have k: "inWhoBlock s2 \<and> currentZone s2 = currentZone s1 \<and> sessionMap s2 = sessionMap s1"
    using body s2 by (intro foldE_autoLine_in_block [of s1 body opts s2]) simp_all
  have zs: "\<And>s. autoLine opts s z
      = Inr (s\<lparr>linesRead := linesRead s + 1, currentZone := Some zn, inWhoBlock := False\<rparr>)"
    using z by (simp add: autoLine_def Let_def autoClassify_def)
  define t3 where "t3 = s0\<lparr>linesRead := linesRead s0 + 1, currentZone := Some zn,
                           inWhoBlock := False\<rparr>"
  have t3: "autoLine opts s0 z = Inr t3" by (simp add: zs t3_def)
  have "agreeAuto s3 t3"
    using s3 o k by (auto simp: zs t3_def agreeAuto_def agreeScan_def)
  then have "rel_sum (=) agreeAuto (foldE (autoLine opts) s3 rest) (foldE (autoLine opts) t3 rest)"
    using autoLine_agree by (rule foldE_rel)
  with rA obtain sB where rB: "foldE (autoLine opts) t3 rest = Inr sB" and ag: "agreeAuto sA sB"
    by (cases "foldE (autoLine opts) t3 rest") simp_all
  have "foldE (autoLine opts) autoInit (pre @ z # rest) = Inr sB"
    unfolding foldE_append_Inr foldE_Cons_Inr using s0 t3 rB by blast
  moreover have "autoSessions sB = autoSessions sA"
    using ag by (simp add: autoSessions_def agreeAuto_def)
  ultimately show ?thesis by (simp add: autoParseLog_def sess)
qed

lemma liveWhoLine_agree:
  assumes "agreeLive s t" and "inWhoBlock s"
  shows "rel_sum (=) agreeLive (liveWhoLine opts s c) (liveWhoLine opts t c)"
proof -
  have e: "whoBlockTime t = whoBlockTime s" "whoPlayers t = whoPlayers s"
    "attendanceMap t = attendanceMap s" "emitted t = emitted s"
    using assms by (simp_all add: agreeLive_def agreeScan_def)
  show ?thesis
  proof (cases "c = whoSeparator")
    case True
    with assms(1) show ?thesis by (simp add: liveWhoLine_def)
  next
    case sep: False
    show ?thesis
    proof (cases "matchWhoFooter c")
      case None
      with assms sep show ?thesis
        by (cases "matchWhoPlayer c") (simp_all add: liveWhoLine_def agreeLive_def agreeScan_def)
    next
      case (Some whoZone)
      show ?thesis
      proof (cases "approvedBy (approvedZoneFilters opts) (Some whoZone)")
        case False
        with assms sep Some show ?thesis
          by (simp add: liveWhoLine_def agreeLive_def agreeScan_def)
      next
        case appr: True
        show ?thesis
        proof (cases "toISOString (whoBlockTime s)")
          case (Inl err)
          with sep Some appr e show ?thesis by (simp add: liveWhoLine_def Let_def)
        next
          case (Inr isoTs)
          with assms sep Some appr e show ?thesis
            by (simp add: liveWhoLine_def Let_def agreeLive_def agreeScan_def)
        qed
      qed
    qed
  qed
qed

lemma liveLootLine_agree:
  assumes "agreeLive s t"
  shows "rel_sum (=) agreeLive (liveLootLine opts s ts c) (liveLootLine opts t ts c)"
proof -
  have e: "currentZone t = currentZone s" "lootEvents t = lootEvents s" "emitted t = emitted s"
    using assms by (simp_all add: agreeLive_def agreeScan_def)
  show ?thesis
  proof (cases "inRaidWindow (watcherRule opts) ts")
    case (Inl err)
    then show ?thesis by (simp add: liveLootLine_def)
  next
    case (Inr inWin)
    show ?thesis
    proof (cases "\<not> inWin \<or> \<not> approvedBy (approvedZoneFilters opts) (currentZone s)")
      case True
      with assms Inr e show ?thesis by (auto simp: liveLootLine_def)
    next
      case False
      show ?thesis
      proof (cases "lootOf (characterName opts) (currentZone s) ts c")
        case None
        with assms Inr False e show ?thesis by (simp add: liveLootLine_def)
      next
        case (Some ev)
        show ?thesis
        proof (cases "toISOString ts")
          case (Inl err)
          with Inr False e Some show ?thesis by (simp add: liveLootLine_def)
        next
          case iso: (Inr isoTs)
          with assms Inr False e Some show ?thesis
            by (simp add: liveLootLine_def agreeLive_def agreeScan_def)
        qed
      qed
    qed
  qed
qed

lemma liveClassify_agree:
  assumes "agreeLive s t"
  shows "rel_sum (=) agreeLive (liveClassify opts s ts c) (liveClassify opts t ts c)"
proof (cases "matchZoneEntry c")
  case (Some z)
  with assms show ?thesis
    by (cases "toISOString ts") (simp_all add: liveClassify_def agreeLive_def agreeScan_def)
next
  case None
  show ?thesis
  proof (cases "c = whoStart")
    case True
    show ?thesis
    proof (cases "inRaidWindow (watcherRule opts) ts")
      case (Inl err)
      with None True show ?thesis by (simp add: liveClassify_def)
    next
      case (Inr inWin)
      with assms None True show ?thesis
        by (simp add: liveClassify_def agreeLive_def agreeScan_def)
    qed
  next
    case False
    have io: "inWhoBlock t = inWhoBlock s" using assms by (simp add: agreeLive_def agreeScan_def)
    show ?thesis
    proof (cases "inWhoBlock s")
      case True
      with None False io show ?thesis
        using liveWhoLine_agree [OF assms True] by (simp add: liveClassify_def)
    next
      case out: False
      with None False io show ?thesis
        using liveLootLine_agree [OF assms] by (simp add: liveClassify_def)
    qed
  qed
qed

lemma liveLine_agree:
  assumes "agreeLive s t"
  shows "rel_sum (=) agreeLive (liveLine opts s l) (liveLine opts t l)"
proof (cases "matchLine l")
  case None
  with assms show ?thesis by (simp add: liveLine_def)
next
  case (Some tc)
  obtain tsStr content where tc: "tc = (tsStr, content)" by (cases tc)
  show ?thesis
  proof (cases "parseEQDateUTC (timezone opts) tsStr")
    case (Inl err)
    with Some tc show ?thesis by (simp add: liveLine_def)
  next
    case (Inr d)
    show ?thesis
    proof (cases d)
      case None
      with assms Some tc Inr show ?thesis by (simp add: liveLine_def)
    next
      case ts: (Some utcTs)
      with Some tc Inr show ?thesis
        using liveClassify_agree [OF assms] by (simp add: liveLine_def)
    qed
  qed
qed

lemma liveWhoLine_in_block:
  assumes "matchWhoFooter c = None" and "liveWhoLine opts s c = Inr s'"
  shows "inWhoBlock s' = inWhoBlock s \<and> currentZone s' = currentZone s
       \<and> attendanceMap s' = attendanceMap s \<and> lootEvents s' = lootEvents s
       \<and> liveZones s' = liveZones s \<and> emitted s' = emitted s"
  using assms by (cases "matchWhoPlayer c") (auto simp: liveWhoLine_def split: if_splits)

lemma liveLine_in_block:
  assumes "inWhoBlock s" and "\<not> isFooterLine l" and "\<not> isZoneEntryLine l"
    and "liveLine opts s l = Inr s'"
  shows "inWhoBlock s' \<and> currentZone s' = currentZone s
       \<and> attendanceMap s' = attendanceMap s \<and> lootEvents s' = lootEvents s
       \<and> liveZones s' = liveZones s \<and> emitted s' = emitted s"
proof (cases "matchLine l")
  case None
  with assms(1,4) show ?thesis by (auto simp: liveLine_def)
next
  case (Some tc)
  obtain tsStr content where tc: "tc = (tsStr, content)" by (cases tc)
  have nf: "matchWhoFooter content = None" and nz: "matchZoneEntry content = None"
    using assms(2,3) Some tc by (simp_all add: isFooterLine_def isZoneEntryLine_def)
  show ?thesis
  proof (cases "parseEQDateUTC (timezone opts) tsStr")
    case (Inl e)
    with assms(4) Some tc show ?thesis by (simp add: liveLine_def)
  next
    case (Inr d)
    show ?thesis
    proof (cases d)
      case None
      with assms(1,4) Some tc Inr show ?thesis by (auto simp: liveLine_def)
    next
      case ts: (Some utcTs)
      have c: "liveClassify opts s utcTs content = Inr s'"
        using assms(4) Some tc Inr ts by (simp add: liveLine_def)
      show ?thesis
      proof (cases "content = whoStart")
        case True
        with c nz assms(1) show ?thesis
          by (cases "inRaidWindow (watcherRule opts) utcTs")
             (auto simp: liveClassify_def split: if_splits)
      next
        case False
        with c nz assms(1) have "liveWhoLine opts s content = Inr s'"
          by (simp add: liveClassify_def)
        from liveWhoLine_in_block [OF nf this] assms(1) show ?thesis by simp
      qed
    qed
  qed
qed

lemma foldE_liveLine_in_block:
  assumes "inWhoBlock s" and "\<forall>l \<in> set body. \<not> isFooterLine l \<and> \<not> isZoneEntryLine l"
    and "foldE (liveLine opts) s body = Inr s'"
  shows "inWhoBlock s' \<and> currentZone s' = currentZone s
       \<and> attendanceMap s' = attendanceMap s \<and> lootEvents s' = lootEvents s
       \<and> liveZones s' = liveZones s \<and> emitted s' = emitted s"
  using assms
proof (induction body arbitrary: s)
  case Nil
  then show ?case by simp
next
  case (Cons l ls)
  from Cons.prems(3) [unfolded foldE_Cons_Inr] obtain m where m: "liveLine opts s l = Inr m"
    and r: "foldE (liveLine opts) m ls = Inr s'"
    by blast
  have 1: "inWhoBlock m \<and> currentZone m = currentZone s
       \<and> attendanceMap m = attendanceMap s \<and> lootEvents m = lootEvents s
       \<and> liveZones m = liveZones s \<and> emitted m = emitted s"
    using Cons.prems(1,2) m by (intro liveLine_in_block [of s l opts m]) simp_all
  have "inWhoBlock s' \<and> currentZone s' = currentZone m
       \<and> attendanceMap s' = attendanceMap m \<and> lootEvents s' = lootEvents m
       \<and> liveZones s' = liveZones m \<and> emitted s' = emitted m"
    using 1 Cons.prems(2) r by (intro Cons.IH) simp_all
  with 1 show ?case by simp
qed

lemma live_aborted_block:
  assumes start: "matchLine start = Some (ts0, whoStart)"
      "parseEQDateUTC (timezone opts) ts0 = Inr (Some t0)"
      "inRaidWindow (watcherRule opts) t0 = Inr True"
    and body: "\<forall>l \<in> set body. \<not> isFooterLine l \<and> \<not> isZoneEntryLine l"
    and z: "matchLine z = Some (tsz, cz)" "matchZoneEntry cz = Some zn"
      "parseEQDateUTC (timezone opts) tsz = Inr (Some tz)"
    and run: "foldE (liveLine opts) w (start # body @ z # rest) = Inr wA"
  shows "\<exists>wB. foldE (liveLine opts) w (z # rest) = Inr wB
            \<and> attendanceMap wA = attendanceMap wB \<and> lootEvents wA = lootEvents wB
            \<and> emitted wA = emitted wB"
proof -
  from run [unfolded foldE_append_Inr foldE_Cons_Inr]
  obtain s1 s2 s3 where s1: "liveLine opts w start = Inr s1"
    and s2: "foldE (liveLine opts) s1 body = Inr s2"
    and s3: "liveLine opts s2 z = Inr s3"
    and rA: "foldE (liveLine opts) s3 rest = Inr wA"
    by blast
  have o: "inWhoBlock s1 \<and> currentZone s1 = currentZone w
       \<and> attendanceMap s1 = attendanceMap w \<and> lootEvents s1 = lootEvents w
       \<and> liveZones s1 = liveZones w \<and> emitted s1 = emitted w"
    using start s1
    by (auto simp: liveLine_def liveClassify_def whoStart_not_zoneEntry)
  then have k: "inWhoBlock s2 \<and> currentZone s2 = currentZone s1
       \<and> attendanceMap s2 = attendanceMap s1 \<and> lootEvents s2 = lootEvents s1
       \<and> liveZones s2 = liveZones s1 \<and> emitted s2 = emitted s1"
    using body s2 by (intro foldE_liveLine_in_block [of s1 body opts s2]) simp_all
  obtain isoTs where iso: "toISOString tz = Inr isoTs"
    using s3 z by (cases "toISOString tz") (simp_all add: liveLine_def liveClassify_def)
  have zs: "\<And>s. liveLine opts s z
      = Inr (s\<lparr>currentZone := Some zn, inWhoBlock := False,
               liveZones := setAdd zn (liveZones s),
               emitted := emitted s @ [ZoneEvent zn isoTs]\<rparr>)"
    using z iso by (simp add: liveLine_def liveClassify_def)
  define t3 where "t3 = w\<lparr>currentZone := Some zn, inWhoBlock := False,
               liveZones := setAdd zn (liveZones w),
               emitted := emitted w @ [ZoneEvent zn isoTs]\<rparr>"
  have t3: "liveLine opts w z = Inr t3" by (simp add: zs t3_def)
  have "agreeLive s3 t3"
    using s3 o k by (auto simp: zs t3_def agreeLive_def agreeScan_def)
  then have "rel_sum (=) agreeLive (foldE (liveLine opts) s3 rest) (foldE (liveLine opts) t3 rest)"
    using liveLine_agree by (rule foldE_rel)
  with rA obtain wB where rB: "foldE (liveLine opts) t3 rest = Inr wB" and ag: "agreeLive wA wB"
    by (cases "foldE (liveLine opts) t3 rest") simp_all
  have "foldE (liveLine opts) w (z # rest) = Inr wB"
    unfolding foldE_Cons_Inr using t3 rB by blast
  with ag show ?thesis by (auto simp: agreeLive_def)
qed

section \<open>The gate in the words of the specification\<close>

lemma inWindow_inRaidWindow:
  "inRaidWindow rule d = Inr True
     \<longleftrightarrow> inWindow (raidDays rule) (raidStartUTC rule) (raidEndUTC rule) d"
  by (cases d)
     (simp_all add: inRaidWindow_def inWindow_def WeekDay_def HourFromTime_def msPerDay_def)

lemma zoneApproved_approvedBy:
  "approvedBy (map normalizeZone approved) zoneName \<longleftrightarrow> zoneApproved approved zoneName"
proof (cases zoneName)
  case None
  then show ?thesis by (simp add: approvedBy_def zoneApproved_def)
next
  case (Some z)
  show ?thesis
  proof (cases "z = [] \<or> approved = []")
    case True
    with Some show ?thesis
      by (auto simp: approvedBy_def zoneApproved_def zoneMatchesFilters_def)
  next
    case False
    with Some show ?thesis
      by (simp add: approvedBy_def zoneApproved_def zoneMatchesFilters_def Let_def
            includesStr_sublist list_ex_iff)
  qed
qed

lemma lootPassed_gatedLoot:
  "gatedLoot rule (map normalizeZone approved) ev
     \<longleftrightarrow> lootPassed (raidDays rule) (raidStartUTC rule) (raidEndUTC rule) approved ev"
  by (simp add: gatedLoot_def lootPassed_def inWindow_inRaidWindow zoneApproved_approvedBy)

lemma recordPassed_gatedRecord:
  "gatedRecord rule r
     \<longleftrightarrow> recordPassed (raidDays rule) (raidStartUTC rule) (raidEndUTC rule) r"
  by (simp add: gatedRecord_def recordPassed_def inWindow_inRaidWindow)

lemma eventPassed_gatedEvent:
  "gatedEvent (map normalizeZone approved) e \<longleftrightarrow> eventPassed approved e"
  by (cases e) (simp_all add: zoneApproved_approvedBy)

lemma sessionPassed_gatedSession:
  "gatedSession b \<longleftrightarrow> sessionPassed [0, 3, 5, 6] 13 17 APPROVED_ZONES b"
proof -
  have l: "gatedLoot RAID_RULE (map normalizeZone APPROVED_ZONES)
             = lootPassed [0, 3, 5, 6] 13 17 APPROVED_ZONES"
    by (rule ext) (simp add: lootPassed_gatedLoot RAID_RULE_def)
  have r: "gatedRecord RAID_RULE = recordPassed [0, 3, 5, 6] 13 17"
    by (rule ext) (simp add: recordPassed_gatedRecord RAID_RULE_def)
  show ?thesis
    by (simp add: gatedSession_def sessionPassed_def l r isApprovedZone_def
          zoneApproved_approvedBy)
qed

lemma watcherRule_fields:
  "raidDays (watcherRule opts) = orDefault (raidDaysOpt opts) [0, 3, 5, 6]"
  "raidStartUTC (watcherRule opts) = orDefault (raidStartOpt opts) 13"
  "raidEndUTC (watcherRule opts) = orDefault (raidEndOpt opts) 17"
  "approvedZoneFilters opts = map normalizeZone (orDefault (approvedZones opts) [])"
  by (simp_all add: watcherRule_def approvedZoneFilters_def orDefault_def)

lemma watcherPassed_liveGated:
  "liveGated opts w
     \<longleftrightarrow> watcherPassed (orDefault (raidDaysOpt opts) [0, 3, 5, 6])
           (orDefault (raidStartOpt opts) 13) (orDefault (raidEndOpt opts) 17)
           (orDefault (approvedZones opts) []) w"
proof -
  have l: "gatedLoot (watcherRule opts) (approvedZoneFilters opts)
             = lootPassed (orDefault (raidDaysOpt opts) [0, 3, 5, 6])
                 (orDefault (raidStartOpt opts) 13) (orDefault (raidEndOpt opts) 17)
                 (orDefault (approvedZones opts) [])"
    by (rule ext) (simp add: watcherRule_fields(4) lootPassed_gatedLoot watcherRule_fields(1-3))
  have r: "gatedRecord (watcherRule opts)
             = recordPassed (orDefault (raidDaysOpt opts) [0, 3, 5, 6])
                 (orDefault (raidStartOpt opts) 13) (orDefault (raidEndOpt opts) 17)"
    by (rule ext) (simp add: recordPassed_gatedRecord watcherRule_fields(1-3))
  have e: "gatedEvent (approvedZoneFilters opts)
             = eventPassed (orDefault (approvedZones opts) [])"
    by (rule ext) (simp add: watcherRule_fields(4) eventPassed_gatedEvent)
  show ?thesis
    by (auto simp: liveGated_def watcherPassed_def l r e inWindow_inRaidWindow
          watcherRule_fields(1-3) list_all_iff)
qed

lemma auto_sessions_passed:
  assumes "autoParseLog opts ls = Inr (sessions, n)"
  shows "list_all (sessionPassed [0, 3, 5, 6] 13 17 APPROVED_ZONES) sessions"
  using auto_sessions_gated [OF assms] by (simp add: list_all_iff sessionPassed_gatedSession)

lemma watcherInit_passed: "watcherPassed days startHour endHour approved watcherInit"
  by (simp add: watcherPassed_def watcherInit_def)

lemma liveLine_passed:
  assumes "watcherPassed (orDefault (raidDaysOpt opts) [0, 3, 5, 6])
           (orDefault (raidStartOpt opts) 13) (orDefault (raidEndOpt opts) 17)
           (orDefault (approvedZones opts) []) w"
    and "liveLine opts w line = Inr w'"
  shows "watcherPassed (orDefault (raidDaysOpt opts) [0, 3, 5, 6])
           (orDefault (raidStartOpt opts) 13) (orDefault (raidEndOpt opts) 17)
           (orDefault (approvedZones opts) []) w'"
  using assms liveLine_gated [of opts w line w'] by (simp add: watcherPassed_liveGated)

lemma readNew_passed:
  assumes "watcherPassed (orDefault (raidDaysOpt opts) [0, 3, 5, 6])
           (orDefault (raidStartOpt opts) 13) (orDefault (raidEndOpt opts) 17)
           (orDefault (approvedZones opts) []) w"
    and "readNew opts file w = Some (Inr w')"
  shows "watcherPassed (orDefault (raidDaysOpt opts) [0, 3, 5, 6])
           (orDefault (raidStartOpt opts) 13) (orDefault (raidEndOpt opts) 17)
           (orDefault (approvedZones opts) []) w'"
  using assms readNew_gated [of opts w "file" w'] by (simp add: watcherPassed_liveGated)

text \<open>The date that a timestamp parses to is never \<open>null\<close>, so the window test does not throw.\<close>

lemma parseEQDateUTC_not_Null:
  assumes "parseEQDateUTC tz tsStr = Inr (Some ts)"
  shows "ts \<noteq> Null"
  using assms
  by (auto simp: parseEQDateUTC_def localToUTC_def ofTime_def Let_def
        split: option.splits sum.splits prod.splits)

lemma inRaidWindow_total:
  assumes "ts \<noteq> Null"
  shows "inRaidWindow rule ts
           = Inr (inWindow (raidDays rule) (raidStartUTC rule) (raidEndUTC rule) ts)"
  using assms
  by (cases ts)
     (simp_all add: inRaidWindow_def inWindow_def WeekDay_def HourFromTime_def msPerDay_def)

section \<open>Where the current zone comes from\<close>

lemma lastZoneEntered_Nil: "lastZoneEntered tz [] = None"
  by (simp add: lastZoneEntered_def)

lemma lastZoneEntered_snoc:
  "lastZoneEntered tz (ls @ [l])
     = (case zoneEntered tz l of Some z \<Rightarrow> Some z | None \<Rightarrow> lastZoneEntered tz ls)"
  by (simp add: lastZoneEntered_def map_filter_def split: option.splits)

lemma foldE_snoc:
  "foldE f s (xs @ [x]) = (case foldE f s xs of Inl e \<Rightarrow> Inl e | Inr s' \<Rightarrow> f s' x)"
  by (simp add: foldE_append split: sum.splits)

lemma liveWhoLine_zone:
  "liveWhoLine opts w content = Inr w' \<Longrightarrow> currentZone w' = currentZone w"
  by (auto simp: liveWhoLine_def Let_def split: if_splits option.splits sum.splits)

lemma liveLootLine_zone:
  "liveLootLine opts w ts content = Inr w' \<Longrightarrow> currentZone w' = currentZone w"
  by (auto simp: liveLootLine_def Let_def split: if_splits option.splits sum.splits)

lemma liveClassify_zone:
  assumes "liveClassify opts w ts content = Inr w'"
  shows "currentZone w'
           = (case matchZoneEntry content of Some z \<Rightarrow> Some z | None \<Rightarrow> currentZone w)"
proof (cases "matchZoneEntry content")
  case (Some z)
  with assms show ?thesis by (auto simp: liveClassify_def split: sum.splits)
next
  case None
  show ?thesis
  proof (cases "content = whoStart")
    case True
    with assms None show ?thesis
      by (auto simp: liveClassify_def split: sum.splits if_splits)
  next
    case False
    show ?thesis
    proof (cases "inWhoBlock w")
      case True
      with assms None False have "liveWhoLine opts w content = Inr w'"
        by (simp add: liveClassify_def)
      with None show ?thesis by (simp add: liveWhoLine_zone)
    next
      case out: False
      with assms None False have "liveLootLine opts w ts content = Inr w'"
        by (simp add: liveClassify_def)
      with None show ?thesis by (simp add: liveLootLine_zone)
    qed
  qed
qed

lemma liveLine_zone:
  assumes "liveLine opts w l = Inr w'"
  shows "currentZone w'
           = (case zoneEntered (timezone opts) l of Some z \<Rightarrow> Some z | None \<Rightarrow> currentZone w)"
proof (cases "matchLine l")
  case None
  with assms show ?thesis by (simp add: liveLine_def zoneEntered_def)
next
  case (Some tc)
  obtain tsStr content where tc: "tc = (tsStr, content)" by (cases tc)
  show ?thesis
  proof (cases "parseEQDateUTC (timezone opts) tsStr")
    case (Inl e)
    with assms Some tc show ?thesis by (simp add: liveLine_def)
  next
    case (Inr d)
    show ?thesis
    proof (cases d)
      case None
      with assms Some tc Inr show ?thesis by (simp add: liveLine_def zoneEntered_def)
    next
      case ts: (Some utcTs)
      have "liveClassify opts w utcTs content = Inr w'"
        using assms Some tc Inr ts by (simp add: liveLine_def)
      from liveClassify_zone [OF this] show ?thesis
        using Some tc Inr ts by (simp add: zoneEntered_def)
    qed
  qed
qed

lemma live_zone_last_entered:
  "foldE (liveLine opts) watcherInit ls = Inr w
     \<Longrightarrow> currentZone w = lastZoneEntered (timezone opts) ls"
proof (induction ls arbitrary: w rule: rev_induct)
  case Nil
  then show ?case by (auto simp: watcherInit_def lastZoneEntered_Nil)
next
  case (snoc l ls)
  from snoc.prems obtain v where v: "foldE (liveLine opts) watcherInit ls = Inr v"
    and l: "liveLine opts v l = Inr w"
    by (cases "foldE (liveLine opts) watcherInit ls") (auto simp: foldE_snoc)
  from snoc.IH [OF v] liveLine_zone [OF l] show ?case
    by (cases "zoneEntered (timezone opts) l") (simp_all add: lastZoneEntered_snoc)
qed

lemma autoWhoLine_zone:
  "autoWhoLine s content = Inr s' \<Longrightarrow> currentZone s' = currentZone s"
  by (auto simp: autoWhoLine_def Let_def split: if_splits option.splits sum.splits)

lemma autoLootLine_zone:
  "autoLootLine opts s ts content = Inr s' \<Longrightarrow> currentZone s' = currentZone s"
  by (auto simp: autoLootLine_def Let_def split: if_splits option.splits sum.splits)

lemma autoClassify_zone:
  assumes "autoClassify opts s ts content = Inr s'"
  shows "currentZone s'
           = (case matchZoneEntry content of Some z \<Rightarrow> Some z | None \<Rightarrow> currentZone s)"
proof (cases "matchZoneEntry content")
  case (Some z)
  with assms show ?thesis by (auto simp: autoClassify_def)
next
  case None
  show ?thesis
  proof (cases "content = whoStart")
    case True
    with assms None show ?thesis
      by (auto simp: autoClassify_def split: sum.splits if_splits)
  next
    case False
    show ?thesis
    proof (cases "inWhoBlock s")
      case True
      with assms None False have "autoWhoLine s content = Inr s'"
        by (simp add: autoClassify_def)
      with None show ?thesis by (simp add: autoWhoLine_zone)
    next
      case out: False
      with assms None False have "autoLootLine opts s ts content = Inr s'"
        by (simp add: autoClassify_def)
      with None show ?thesis by (simp add: autoLootLine_zone)
    qed
  qed
qed

lemma autoLine_zone:
  assumes "autoLine opts s l = Inr s'"
  shows "currentZone s'
           = (case zoneEntered (timezone opts) l of Some z \<Rightarrow> Some z | None \<Rightarrow> currentZone s)"
proof (cases "matchLine l")
  case None
  with assms show ?thesis by (auto simp: autoLine_def zoneEntered_def Let_def)
next
  case (Some tc)
  obtain tsStr content where tc: "tc = (tsStr, content)" by (cases tc)
  show ?thesis
  proof (cases "parseEQDateUTC (timezone opts) tsStr")
    case (Inl e)
    with assms Some tc show ?thesis by (simp add: autoLine_def Let_def)
  next
    case (Inr d)
    show ?thesis
    proof (cases d)
      case None
      with assms Some tc Inr show ?thesis by (auto simp: autoLine_def zoneEntered_def Let_def)
    next
      case ts: (Some utcTs)
      have "autoClassify opts (s\<lparr>linesRead := linesRead s + 1\<rparr>) utcTs content = Inr s'"
        using assms Some tc Inr ts by (simp add: autoLine_def Let_def)
      from autoClassify_zone [OF this] show ?thesis
        using Some tc Inr ts by (cases "matchZoneEntry content") (simp_all add: zoneEntered_def)
    qed
  qed
qed

lemma auto_zone_last_entered:
  "foldE (autoLine opts) autoInit ls = Inr s
     \<Longrightarrow> currentZone s = lastZoneEntered (timezone opts) ls"
proof (induction ls arbitrary: s rule: rev_induct)
  case Nil
  then show ?case by (auto simp: autoInit_def lastZoneEntered_Nil)
next
  case (snoc l ls)
  from snoc.prems obtain v where v: "foldE (autoLine opts) autoInit ls = Inr v"
    and l: "autoLine opts v l = Inr s"
    by (cases "foldE (autoLine opts) autoInit ls") (auto simp: foldE_snoc)
  from snoc.IH [OF v] autoLine_zone [OF l] show ?case
    by (cases "zoneEntered (timezone opts) l") (simp_all add: lastZoneEntered_snoc)
qed

section \<open>The gate at each line\<close>

lemma otherLoot_not_whoLine:
  assumes "matchOtherLoot content = Some x"
  shows "content \<noteq> whoSeparator" and "matchWhoFooter content = None"
    and "matchWhoPlayer content = None"
proof -
  have "matchOtherLoot whoSeparator = None" by code_simp
  with assms show "content \<noteq> whoSeparator" by auto
  from matchOtherLoot_Some [OF assms]
  show "matchWhoFooter content = None" and "matchWhoPlayer content = None"
    by (auto simp: matchWhoFooter_def matchWhoPlayer_def matchLevelClass_def lit_def)
qed

lemma live_loot_line:
  assumes "matchLine line = Some (tsStr, content)"
    and "parseEQDateUTC (timezone opts) tsStr = Inr (Some ts)"
    and "matchOtherLoot content = Some (who, item)"
  shows "\<exists>w'. liveLine opts w line = Inr w'
            \<and> lootEvents w' = lootEvents w @
                 (if \<not> inWhoBlock w
                     \<and> inWindow (orDefault (raidDaysOpt opts) [0, 3, 5, 6])
                         (orDefault (raidStartOpt opts) 13) (orDefault (raidEndOpt opts) 17) ts
                     \<and> zoneApproved (orDefault (approvedZones opts) []) (currentZone w)
                  then [\<lparr>playerName = Some who, itemName = item, timestamp = ts,
                         zone = currentZone w\<rparr>]
                  else [])"
proof (cases "inWhoBlock w")
  case True
  have "liveLine opts w line = liveWhoLine opts w content"
    using assms(1,2) True otherLoot_not_zoneEntry [OF assms(3)]
      otherLoot_not_whoStart [OF assms(3)]
    by (simp add: liveLine_def liveClassify_def)
  also have "\<dots> = Inr w"
    using otherLoot_not_whoLine [OF assms(3)] by (simp add: liveWhoLine_def)
  finally show ?thesis using True by simp
next
  case out: False
  show ?thesis
  proof (cases "inWindow (orDefault (raidDaysOpt opts) [0, 3, 5, 6])
                  (orDefault (raidStartOpt opts) 13) (orDefault (raidEndOpt opts) 17) ts
                \<and> zoneApproved (orDefault (approvedZones opts) []) (currentZone w)")
    case True
    then have "inRaidWindow (watcherRule opts) ts = Inr True"
      and "approvedBy (approvedZoneFilters opts) (currentZone w)"
      by (simp_all add: inWindow_inRaidWindow watcherRule_fields zoneApproved_approvedBy)
    with assms out True show ?thesis
      using live_loot_accepted [of line tsStr content opts ts who item w] by simp
  next
    case False
    have n: "ts \<noteq> Null" using assms(2) by (rule parseEQDateUTC_not_Null)
    have "liveLine opts w line = liveLootLine opts w ts content"
      using assms(1,2) out otherLoot_not_zoneEntry [OF assms(3)]
        otherLoot_not_whoStart [OF assms(3)]
      by (simp add: liveLine_def liveClassify_def)
    also have "\<dots> = Inr w"
      using False
      by (auto simp: liveLootLine_def inRaidWindow_total [OF n] watcherRule_fields
            zoneApproved_approvedBy)
    finally show ?thesis using False by simp
  qed
qed

lemma auto_loot_line:
  assumes "matchLine line = Some (tsStr, content)"
    and "parseEQDateUTC (timezone opts) tsStr = Inr (Some ts)"
    and "matchOtherLoot content = Some (who, item)"
  shows "\<exists>s'. autoLine opts s line = Inr s'
            \<and> (if \<not> inWhoBlock s \<and> inWindow [0, 3, 5, 6] 13 17 ts
                   \<and> zoneApproved APPROVED_ZONES (currentZone s)
                then \<lparr>playerName = Some who, itemName = item, timestamp = ts,
                      zone = currentZone s\<rparr> \<in> set (allLoot s')
                else sessionMap s' = sessionMap s)"
proof (cases "inWhoBlock s")
  case True
  have "autoLine opts s line = autoWhoLine (s\<lparr>linesRead := linesRead s + 1\<rparr>) content"
    using assms(1,2) True otherLoot_not_zoneEntry [OF assms(3)]
      otherLoot_not_whoStart [OF assms(3)]
    by (simp add: autoLine_def autoClassify_def Let_def)
  also have "\<dots> = Inr (s\<lparr>linesRead := linesRead s + 1\<rparr>)"
    using otherLoot_not_whoLine [OF assms(3)] by (simp add: autoWhoLine_def)
  finally have "autoLine opts s line = Inr (s\<lparr>linesRead := linesRead s + 1\<rparr>)" .
  with True show ?thesis by auto
next
  case out: False
  show ?thesis
  proof (cases "inWindow [0, 3, 5, 6] 13 17 ts
                \<and> zoneApproved APPROVED_ZONES (currentZone s)")
    case True
    then have "isInRaidWindow ts = Inr True" and "isApprovedZone (currentZone s)"
      using inWindow_inRaidWindow [of RAID_RULE ts]
      by (simp_all add: isInRaidWindow_def RAID_RULE_def isApprovedZone_def
            zoneApproved_approvedBy)
    with assms out True show ?thesis
      using auto_loot_accepted [of line tsStr content opts ts who item s] by simp
  next
    case False
    have n: "ts \<noteq> Null" using assms(2) by (rule parseEQDateUTC_not_Null)
    have "autoLine opts s line
            = autoLootLine opts (s\<lparr>linesRead := linesRead s + 1\<rparr>) ts content"
      using assms(1,2) out otherLoot_not_zoneEntry [OF assms(3)]
        otherLoot_not_whoStart [OF assms(3)]
      by (simp add: autoLine_def autoClassify_def Let_def)
    also have "\<dots> = Inr (s\<lparr>linesRead := linesRead s + 1\<rparr>)"
      using False inRaidWindow_total [OF n, of RAID_RULE]
      by (auto simp: autoLootLine_def isInRaidWindow_def RAID_RULE_def isApprovedZone_def
            zoneApproved_approvedBy)
    finally have "autoLine opts s line = Inr (s\<lparr>linesRead := linesRead s + 1\<rparr>)" .
    with False show ?thesis by auto
  qed
qed

text \<open>A start marker opens a roster block where its instant lies in the window, and only there.\<close>

lemma live_start_marker:
  assumes "matchLine line = Some (tsStr, whoStart)"
    and "parseEQDateUTC (timezone opts) tsStr = Inr (Some ts)"
  shows "liveLine opts w line
           = Inr (if inWindow (orDefault (raidDaysOpt opts) [0, 3, 5, 6])
                      (orDefault (raidStartOpt opts) 13) (orDefault (raidEndOpt opts) 17) ts
                  then w\<lparr>inWhoBlock := True, whoBlockTime := ts, whoPlayers := []\<rparr>
                  else w)"
proof -
  have n: "ts \<noteq> Null" using assms(2) by (rule parseEQDateUTC_not_Null)
  show ?thesis
    using assms whoStart_not_zoneEntry
    by (simp add: liveLine_def liveClassify_def inRaidWindow_total [OF n] watcherRule_fields)
qed

lemma auto_start_marker:
  assumes "matchLine line = Some (tsStr, whoStart)"
    and "parseEQDateUTC (timezone opts) tsStr = Inr (Some ts)"
  shows "autoLine opts s line
           = Inr (if inWindow [0, 3, 5, 6] 13 17 ts
                  then s\<lparr>inWhoBlock := True, whoBlockTime := ts, whoPlayers := [],
                         linesRead := linesRead s + 1\<rparr>
                  else s\<lparr>linesRead := linesRead s + 1\<rparr>)"
proof -
  have n: "ts \<noteq> Null" using assms(2) by (rule parseEQDateUTC_not_Null)
  show ?thesis
    using assms whoStart_not_zoneEntry inRaidWindow_total [OF n, of RAID_RULE]
    by (simp add: autoLine_def autoClassify_def Let_def isInRaidWindow_def RAID_RULE_def)
qed

text \<open>A footer flushes the block where its zone is approved, and only there.\<close>

lemma matchWhoFooter_Some:
  "matchWhoFooter content = Some z \<Longrightarrow> \<exists>r. content = ''There are '' @ r"
  by (auto simp: matchWhoFooter_def bind_eq_Some_conv stripPrefix_Some split: if_splits)

lemma footer_not_other:
  assumes "matchWhoFooter content = Some z"
  shows "matchZoneEntry content = None" and "content \<noteq> whoStart"
    and "content \<noteq> whoSeparator"
  using matchWhoFooter_Some [OF assms]
  by (auto simp: matchZoneEntry_def whoStart_def whoSeparator_def)

lemma live_footer:
  assumes "matchLine line = Some (tsStr, content)"
    and "parseEQDateUTC (timezone opts) tsStr = Inr (Some ts)"
    and "matchWhoFooter content = Some whoZone"
    and "inWhoBlock w"
    and "liveLine opts w line = Inr w'"
  shows "\<not> inWhoBlock w'
         \<and> attendanceMap w'
             = (if zoneApproved (orDefault (approvedZones opts) []) (Some whoZone)
                then foldl (upsertLive (whoBlockTime w)) (attendanceMap w) (whoPlayers w)
                else attendanceMap w)"
proof -
  have "liveLine opts w line = liveWhoLine opts w content"
    using assms(1,2,4) footer_not_other [OF assms(3)]
    by (simp add: liveLine_def liveClassify_def)
  with assms(5) have "liveWhoLine opts w content = Inr w'" by simp
  then show ?thesis
    using assms(3) footer_not_other(3) [OF assms(3)]
    by (auto simp: liveWhoLine_def Let_def watcherRule_fields zoneApproved_approvedBy
          split: if_splits sum.splits)
qed

lemma auto_footer:
  assumes "matchLine line = Some (tsStr, content)"
    and "parseEQDateUTC (timezone opts) tsStr = Inr (Some ts)"
    and "matchWhoFooter content = Some whoZone"
    and "inWhoBlock s"
    and "autoLine opts s line = Inr s'"
    and "\<not> (zoneApproved APPROVED_ZONES (Some whoZone)
            \<and> inWindow [0, 3, 5, 6] 13 17 (whoBlockTime s))"
  shows "\<not> inWhoBlock s' \<and> sessionMap s' = sessionMap s"
proof -
  have "autoLine opts s line = autoWhoLine (s\<lparr>linesRead := linesRead s + 1\<rparr>) content"
    using assms(1,2,4) footer_not_other [OF assms(3)]
    by (simp add: autoLine_def autoClassify_def Let_def)
  with assms(5) have "autoWhoLine (s\<lparr>linesRead := linesRead s + 1\<rparr>) content = Inr s'" by simp
  then show ?thesis
    using assms(3,6) footer_not_other(3) [OF assms(3)]
      inWindow_inRaidWindow [of RAID_RULE "whoBlockTime s"]
    by (auto simp: autoWhoLine_def Let_def isApprovedZone_def zoneApproved_approvedBy
          isInRaidWindow_def RAID_RULE_def split: if_splits sum.splits)
qed

text \<open>A loot line read after a sequence of lines.\<close>

lemma live_loot_after:
  assumes "foldE (liveLine opts) watcherInit ls = Inr w"
    and "matchLine line = Some (tsStr, content)"
    and "parseEQDateUTC (timezone opts) tsStr = Inr (Some ts)"
    and "matchOtherLoot content = Some (who, item)"
  shows "\<exists>w'. foldE (liveLine opts) watcherInit (ls @ [line]) = Inr w'
            \<and> lootEvents w' = lootEvents w @
                 (if \<not> inWhoBlock w
                     \<and> inWindow (orDefault (raidDaysOpt opts) [0, 3, 5, 6])
                         (orDefault (raidStartOpt opts) 13) (orDefault (raidEndOpt opts) 17) ts
                     \<and> zoneApproved (orDefault (approvedZones opts) [])
                         (lastZoneEntered (timezone opts) ls)
                  then [\<lparr>playerName = Some who, itemName = item, timestamp = ts,
                         zone = lastZoneEntered (timezone opts) ls\<rparr>]
                  else [])"
proof -
  have z: "currentZone w = lastZoneEntered (timezone opts) ls"
    using assms(1) by (rule live_zone_last_entered)
  from live_loot_line [OF assms(2,3,4), of w, unfolded z]
  obtain w' where l: "liveLine opts w line = Inr w'"
    and e: "lootEvents w' = lootEvents w @
                 (if \<not> inWhoBlock w
                     \<and> inWindow (orDefault (raidDaysOpt opts) [0, 3, 5, 6])
                         (orDefault (raidStartOpt opts) 13) (orDefault (raidEndOpt opts) 17) ts
                     \<and> zoneApproved (orDefault (approvedZones opts) [])
                         (lastZoneEntered (timezone opts) ls)
                  then [\<lparr>playerName = Some who, itemName = item, timestamp = ts,
                         zone = lastZoneEntered (timezone opts) ls\<rparr>]
                  else [])"
    by blast
  have "foldE (liveLine opts) watcherInit (ls @ [line]) = Inr w'"
    using assms(1) l by (simp add: foldE_snoc)
  with e show ?thesis by blast
qed

lemma auto_loot_after:
  assumes "foldE (autoLine opts) autoInit ls = Inr s"
    and "matchLine line = Some (tsStr, content)"
    and "parseEQDateUTC (timezone opts) tsStr = Inr (Some ts)"
    and "matchOtherLoot content = Some (who, item)"
  shows "\<exists>s'. foldE (autoLine opts) autoInit (ls @ [line]) = Inr s'
            \<and> (if \<not> inWhoBlock s \<and> inWindow [0, 3, 5, 6] 13 17 ts
                   \<and> zoneApproved APPROVED_ZONES (lastZoneEntered (timezone opts) ls)
                then \<lparr>playerName = Some who, itemName = item, timestamp = ts,
                      zone = lastZoneEntered (timezone opts) ls\<rparr> \<in> set (allLoot s')
                else sessionMap s' = sessionMap s)"
proof -
  have z: "currentZone s = lastZoneEntered (timezone opts) ls"
    using assms(1) by (rule auto_zone_last_entered)
  from auto_loot_line [OF assms(2,3,4), of s, unfolded z]
  obtain s' where l: "autoLine opts s line = Inr s'"
    and e: "if \<not> inWhoBlock s \<and> inWindow [0, 3, 5, 6] 13 17 ts
                   \<and> zoneApproved APPROVED_ZONES (lastZoneEntered (timezone opts) ls)
                then \<lparr>playerName = Some who, itemName = item, timestamp = ts,
                      zone = lastZoneEntered (timezone opts) ls\<rparr> \<in> set (allLoot s')
                else sessionMap s' = sessionMap s"
    by blast
  have "foldE (autoLine opts) autoInit (ls @ [line]) = Inr s'"
    using assms(1) l by (simp add: foldE_snoc)
  with e show ?thesis by blast
qed

section \<open>Zone matcher\<close>

text \<open>
  Claim C5, as amended. \<open>matches(zoneName, filterSet)\<close> holds exactly when the zone name
  and the filter set are not empty and some filter, normalized, is a substring of the
  normalized zone name or contains it, where the normalization is the code's: lower case,
  then a leading \<open>the\<close> with the whole white-space run after it removed, then trimmed.
  The three examples of the specification hold.
\<close>

theorem zone_matcher_bidirectional:
  "(matches zoneName filterSet \<longleftrightarrow>
      zoneName \<noteq> [] \<and> filterSet \<noteq> [] \<and>
      (\<exists>f \<in> set filterSet.
         sublist (normalizeZone f) (normalizeZone zoneName)
         \<or> sublist (normalizeZone zoneName) (normalizeZone f)))
   \<and> matches ''Fungus Grove'' [''fungus'']
   \<and> matches ''fungus'' [''Fungus Grove'']
   \<and> matches ''The Deep'' [''deep'']"
proof -
  have "matches zoneName filterSet \<longleftrightarrow>
      zoneName \<noteq> [] \<and> filterSet \<noteq> [] \<and>
      (\<exists>f \<in> set filterSet.
         sublist (normalizeZone f) (normalizeZone zoneName)
         \<or> sublist (normalizeZone zoneName) (normalizeZone f))"
    by (auto simp: matches_def zoneMatchesFilters_def includesStr_sublist list_ex_iff Let_def)
  moreover have "matches ''Fungus Grove'' [''fungus'']" by code_simp
  moreover have "matches ''fungus'' [''Fungus Grove'']" by code_simp
  moreover have "matches ''The Deep'' [''deep'']" by code_simp
  ultimately show ?thesis by blast
qed

theorem zone_matcher_bidirectional_witness:
  "matches ''The Fungus Grove'' [''fungus'']
   \<and> (sublist (normalizeZone ''fungus'') (normalizeZone ''The Fungus Grove'')
        \<or> sublist (normalizeZone ''The Fungus Grove'') (normalizeZone ''fungus''))"
proof -
  have m: "matches ''The Fungus Grove'' [''fungus'']" by code_simp
  show ?thesis
    using m zone_matcher_bidirectional [of "''The Fungus Grove''" "[''fungus'']"] by simp
qed

text \<open>
  The normalization of the specification's words gives another relation: with two spaces
  after \<open>The\<close> the code strips both and the words strip one, and with a space before
  \<open>The\<close> the code strips nothing and the words strip the article.
\<close>

theorem zone_matcher_differs_from_words:
  "matches ''The  Deep'' [''deepwater''] \<and> \<not> specMatches ''The  Deep'' [''deepwater'']
   \<and> \<not> matches '' The Deep'' [''deepwater''] \<and> specMatches '' The Deep'' [''deepwater'']"
  by code_simp

section \<open>Attendance aggregator\<close>

text \<open>
  Claim C1, as amended. On a repeat sighting (the participant's lower-case name is already
  a key of the map) the stored record keeps its name, level, class, race and guild: each
  of the two loop bodies only moves the bounds \<open>firstSeen\<close> and \<open>lastSeen\<close>.
\<close>

theorem repeat_sighting_keeps_fields:
  assumes "map_of am (toLowerCase (name p)) = Some e"
  shows "(\<exists>e'. map_of (upsert t am p) (toLowerCase (name p)) = Some e'
            \<and> name e' = name e \<and> level e' = level e \<and> cls e' = cls e
            \<and> race e' = race e \<and> guild e' = guild e)
       \<and> (\<exists>e'. map_of (upsertLive t am p) (toLowerCase (name p)) = Some e'
            \<and> name e' = name e \<and> level e' = level e \<and> cls e' = cls e
            \<and> race e' = race e \<and> guild e' = guild e)"
  using assms
  by (simp add: upsert_def upsertLive_def map_of_mapAdjust widen_def widenLive_def Let_def)

theorem repeat_sighting_keeps_fields_witness:
  "map_of [(''lyri'', sighting \<lparr>name = ''Lyri'', level = Some (Num 60), cls = Some ''Virtuoso'',
                                race = None, guild = None\<rparr> (Valid 1000))]
     (toLowerCase (name \<lparr>name = ''LYRI'', level = None, cls = None, race = None,
                         guild = None\<rparr>))
   = Some (sighting \<lparr>name = ''Lyri'', level = Some (Num 60), cls = Some ''Virtuoso'',
                     race = None, guild = None\<rparr> (Valid 1000))
   \<and> (\<exists>e'. map_of (upsert (Valid 2000)
               [(''lyri'', sighting \<lparr>name = ''Lyri'', level = Some (Num 60), cls = Some ''Virtuoso'',
                                      race = None, guild = None\<rparr> (Valid 1000))]
               \<lparr>name = ''LYRI'', level = None, cls = None, race = None, guild = None\<rparr>)
             (toLowerCase (name \<lparr>name = ''LYRI'', level = None, cls = None, race = None,
                                 guild = None\<rparr>)) = Some e'
          \<and> level e' = Some (Num 60))"
proof -
  have k: "map_of [(''lyri'', sighting \<lparr>name = ''Lyri'', level = Some (Num 60), cls = Some ''Virtuoso'',
                                race = None, guild = None\<rparr> (Valid 1000))]
     (toLowerCase (name \<lparr>name = ''LYRI'', level = None, cls = None, race = None,
                         guild = None\<rparr>))
   = Some (sighting \<lparr>name = ''Lyri'', level = Some (Num 60), cls = Some ''Virtuoso'',
                     race = None, guild = None\<rparr> (Valid 1000))"
    by code_simp
  show ?thesis
    using k repeat_sighting_keeps_fields [OF k, of "Valid 2000"]
    by (auto simp: sighting_def)
qed

text \<open>
  The claim as the specification states it fails: the second roster block sights \<open>Lyri\<close>
  as anonymous (no level, class, race or guild), and the record keeps the fields of the
  first sighting while its \<open>lastSeen\<close> moves to the second block.
\<close>

theorem repeat_sighting_does_not_overwrite:
  "attendance (parseLog id
      \<lparr>characterName = None, startTime = Valid 0, endTime = Valid 2000000000000,
       zones = [''fungus'']\<rparr>
      [''[Thu Jan 22 20:54:27 2026] Players on EverQuest:'',
       ''[Thu Jan 22 20:54:27 2026] [60 Virtuoso] Lyri (Vah Shir) <Intervention>'',
       ''[Thu Jan 22 20:54:27 2026] There are 2 players in Fungus Grove.'',
       ''[Thu Jan 22 21:10:00 2026] Players on EverQuest:'',
       ''[Thu Jan 22 21:10:00 2026] [ANONYMOUS] Lyri'',
       ''[Thu Jan 22 21:10:00 2026] There are 2 players in Fungus Grove.''])
   = [\<lparr>name = ''Lyri'', level = Some (Num 60), cls = Some ''Virtuoso'', race = Some ''Vah Shir'',
       guild = Some ''Intervention'', firstSeen = Valid 1769115267000,
       lastSeen = Valid 1769116200000\<rparr>]"
  by code_simp

text \<open>
  In the batch parsers a repeat sighting moves both bounds outward: on valid instants
  \<open>firstSeen\<close> becomes the minimum and \<open>lastSeen\<close> the maximum.
\<close>

lemma widen_min_max:
  assumes "firstSeen e = Valid a" and "lastSeen e = Valid b"
  shows "firstSeen (widen (Valid t) e) = Valid (min a t)
       \<and> lastSeen (widen (Valid t) e) = Valid (max b t)"
  using assms by (auto simp: widen_def dateLess_def timeOf_def Let_def)

text \<open>
  Claim C2 on the watcher. The watcher's loop body moves \<open>lastSeen\<close> only. Two flushed
  roster blocks sight \<open>Lyri\<close>, the second with the earlier instant (14:10 after 14:30):
  the watcher's record keeps \<open>firstSeen\<close> at 14:30 and does not span the sighting at
  14:10, where \<open>autoParseLog\<close> on the same lines moves \<open>firstSeen\<close> back to 14:10.
\<close>

theorem watcher_firstSeen_not_moved_back:
  "map_sum id liveAttendance (foldE (liveLine
      \<lparr>characterName = None, timezone = fixedOffsetZone 0, approvedZones = Some [''The Deep''],
       raidDaysOpt = None, raidStartOpt = None, raidEndOpt = None\<rparr>) watcherInit
      [''[Wed Jan 21 14:30:00 2026] Players on EverQuest:'',
       ''[Wed Jan 21 14:30:00 2026] [60 Virtuoso] Lyri (Vah Shir) <Intervention>'',
       ''[Wed Jan 21 14:30:00 2026] There are 2 players in The Deep.'',
       ''[Wed Jan 21 14:10:00 2026] Players on EverQuest:'',
       ''[Wed Jan 21 14:10:00 2026] [60 Virtuoso] Lyri (Vah Shir) <Intervention>'',
       ''[Wed Jan 21 14:10:00 2026] There are 2 players in The Deep.''])
   = Inr [\<lparr>name = ''Lyri'', level = Some (Num 60), cls = Some ''Virtuoso'', race = Some ''Vah Shir'',
       guild = Some ''Intervention'', firstSeen = Valid 1769005800000,
       lastSeen = Valid 1769005800000\<rparr>]
   \<and> map_sum id (map roster \<circ> fst) (autoParseLog
      \<lparr>characterName = None, timezone = fixedOffsetZone 0\<rparr>
      [''[Wed Jan 21 14:30:00 2026] Players on EverQuest:'',
       ''[Wed Jan 21 14:30:00 2026] [60 Virtuoso] Lyri (Vah Shir) <Intervention>'',
       ''[Wed Jan 21 14:30:00 2026] There are 2 players in The Deep.'',
       ''[Wed Jan 21 14:10:00 2026] Players on EverQuest:'',
       ''[Wed Jan 21 14:10:00 2026] [60 Virtuoso] Lyri (Vah Shir) <Intervention>'',
       ''[Wed Jan 21 14:10:00 2026] There are 2 players in The Deep.''])
   = Inr [[\<lparr>name = ''Lyri'', level = Some (Num 60), cls = Some ''Virtuoso'', race = Some ''Vah Shir'',
       guild = Some ''Intervention'', firstSeen = Valid 1769004600000,
       lastSeen = Valid 1769005800000\<rparr>]]"
  by code_simp

section \<open>Timestamp normalizer\<close>

text \<open>The two instants of 2026 at which the New York wall clock changes.\<close>

lemma newYork2026_changes:
  "isoString 1772953200000 = ''2026-03-08T07:00:00.000Z''
   \<and> isoString 1793512800000 = ''2026-11-01T06:00:00.000Z''"
  by code_simp

text \<open>
  The arithmetic of \<open>localToUTC\<close>: where the candidate (the sextuple read as UTC by
  \<open>Date.UTC\<close>) and the observed instant (the wall clock the zone shows for the
  candidate, read back as UTC) are time values, the result is the date made from
  \<open>candidate + offset\<close> with \<open>offset = candidate - observed\<close>.
\<close>

lemma localToUTC_arithmetic:
  assumes "DateUTC yr (Some month) dt hour minute sec = Some candidate"
    and "localViewUTC tz candidate = Some observed"
  shows "localToUTC tz yr (Some month) dt hour minute sec
           = Inr (ofTime (TimeClip (candidate + (candidate - observed))))"
  using assms by (simp add: localToUTC_def Let_def)

text \<open>
  Claim C4 fails on the code. The offset is the one in force at the candidate instant,
  which lies a whole offset away from the instant being converted, so between a change of
  the zone's offset and the candidate's crossing of it the offset is the wrong one. In
  New York the clocks went forward on 8 March 2026 at 07:00 UTC. The timestamp
  \<open>Sun Mar 08 03:30:00 2026\<close> is a wall-clock time that exists once, 07:30 UTC; its
  candidate, 03:30 UTC, still shows winter time, and \<open>localToUTC\<close> returns 08:30 UTC,
  an instant whose New York wall clock is 04:30.
\<close>

theorem localToUTC_wrong_offset_after_dst_change:
  "localToUTC newYork2026 2026 (Some 2) 8 3 30 0 = Inr (Valid 1772958600000)
   \<and> parseEQDateUTC newYork2026 ''Sun Mar 08 03:30:00 2026'' = Inr (Some (Valid 1772958600000))
   \<and> isoString 1772958600000 = ''2026-03-08T08:30:00.000Z''
   \<and> newYork2026 1772958600000
       = \<lparr>pyear = 2026, pmonth = 3, pday = 8, phour = 4, pminute = 30, psecond = 0\<rparr>
   \<and> isoString 1772955000000 = ''2026-03-08T07:30:00.000Z''
   \<and> newYork2026 1772955000000
       = \<lparr>pyear = 2026, pmonth = 3, pday = 8, phour = 3, pminute = 30, psecond = 0\<rparr>"
  by code_simp

section \<open>Session segmenter\<close>

text \<open>
  Claim C7. For every auto-mode scan that returns, the returned sessions are sorted in
  ascending order of their date string, none of them has both an empty attendance and an
  empty loot list, and of the buckets of the scan exactly the non-empty ones are returned.
\<close>

theorem sessions_sorted_nonempty:
  assumes "autoParseLog opts ls = Inr (sessions, n)"
  shows "sorted (map date sessions)
       \<and> (\<forall>r \<in> set sessions. roster r \<noteq> [] \<or> sessLoot r \<noteq> [])
       \<and> (\<exists>s. foldE (autoLine opts) autoInit ls = Inr s
              \<and> (\<forall>b \<in> snd ` set (sessionMap s).
                    (roster b = [] \<and> sessLoot b = [] \<longrightarrow> flatten b \<notin> set sessions)
                  \<and> (roster b \<noteq> [] \<or> sessLoot b \<noteq> [] \<longrightarrow> flatten b \<in> set sessions)))"
proof -
  from assms obtain s where s: "foldE (autoLine opts) autoInit ls = Inr s"
    and r: "sessions = autoSessions s"
    by (auto simp: autoParseLog_def split: sum.splits)
  have 1: "sorted (map date sessions)"
    unfolding r autoSessions_def by (rule sorted_sort_key)
  have st: "set sessions =
      flatten ` {b \<in> snd ` set (sessionMap s). roster b \<noteq> [] \<or> sessLoot b \<noteq> []}"
    unfolding r autoSessions_def by auto
  have fl: "\<And>b. roster (flatten b) = map snd (roster b) \<and> sessLoot (flatten b) = sessLoot b"
    by (simp add: flatten_def)
  have 2: "\<forall>r \<in> set sessions. roster r \<noteq> [] \<or> sessLoot r \<noteq> []"
    unfolding st using fl by auto
  have 3: "\<forall>b \<in> snd ` set (sessionMap s).
                    (roster b = [] \<and> sessLoot b = [] \<longrightarrow> flatten b \<notin> set sessions)
                  \<and> (roster b \<noteq> [] \<or> sessLoot b \<noteq> [] \<longrightarrow> flatten b \<in> set sessions)"
  proof
    fix b assume b: "b \<in> snd ` set (sessionMap s)"
    have "roster b = [] \<and> sessLoot b = [] \<longrightarrow> flatten b \<notin> set sessions"
      using 2 fl by (metis map_is_Nil_conv)
    moreover have "roster b \<noteq> [] \<or> sessLoot b \<noteq> [] \<longrightarrow> flatten b \<in> set sessions"
      unfolding st using b by blast
    ultimately show "(roster b = [] \<and> sessLoot b = [] \<longrightarrow> flatten b \<notin> set sessions)
                  \<and> (roster b \<noteq> [] \<or> sessLoot b \<noteq> [] \<longrightarrow> flatten b \<in> set sessions)"
      by blast
  qed
  from 1 2 3 s show ?thesis by blast
qed

text \<open>
  A scan with loot on a Wednesday, then on the Sunday before it, then a chat line on the
  Friday after (which opens a bucket that stays empty): two sessions, Sunday first.
\<close>

theorem sessions_sorted_nonempty_witness:
  "\<exists>sessions. autoParseLog \<lparr>characterName = None, timezone = fixedOffsetZone 0\<rparr>
        [''[Wed Jan 21 14:00:00 2026] You have entered The Deep.'',
         ''[Wed Jan 21 14:05:00 2026] --Bob has looted a Shiknar Ichor.--'',
         ''[Sun Jan 18 14:05:00 2026] --Bob has looted a Shiknar Ichor.--'',
         ''[Fri Jan 23 14:05:00 2026] Bob tells the raid, hello''] = Inr (sessions, 4)
     \<and> map date sessions = [''2026-01-18'', ''2026-01-21'']
     \<and> sorted (map date sessions)"
proof -
  have e: "autoParseLog \<lparr>characterName = None, timezone = fixedOffsetZone 0\<rparr>
        [''[Wed Jan 21 14:00:00 2026] You have entered The Deep.'',
         ''[Wed Jan 21 14:05:00 2026] --Bob has looted a Shiknar Ichor.--'',
         ''[Sun Jan 18 14:05:00 2026] --Bob has looted a Shiknar Ichor.--'',
         ''[Fri Jan 23 14:05:00 2026] Bob tells the raid, hello'']
      = Inr ([\<lparr>date = ''2026-01-18'', dayName = ''Sunday'', roster = [],
                sessLoot = [\<lparr>playerName = Some ''Bob'', itemName = ''Shiknar Ichor'',
                              timestamp = Valid 1768745100000, zone = Some ''The Deep''\<rparr>],
                sessZones = [''The Deep''], sessFirstSeen = Valid 1768745100000,
                sessLastSeen = Valid 1768745100000\<rparr>,
              \<lparr>date = ''2026-01-21'', dayName = ''Wednesday'', roster = [],
                sessLoot = [\<lparr>playerName = Some ''Bob'', itemName = ''Shiknar Ichor'',
                              timestamp = Valid 1769004300000, zone = Some ''The Deep''\<rparr>],
                sessZones = [''The Deep''], sessFirstSeen = Valid 1769004300000,
                sessLastSeen = Valid 1769004300000\<rparr>], 4)"
    by code_simp
  show ?thesis
    using e sessions_sorted_nonempty [OF e] by auto
qed

section \<open>Batch time window\<close>

text \<open>
  Claim C9. In \<open>parseLog\<close> a line whose timestamp parses and lies before \<open>startTime\<close> or
  after \<open>endTime\<close> changes nothing but the line counter: the current zone, the
  roster-block flag, the block instant, the buffered entries, the attendance map and the
  loot list stay as they were, whatever the content of the line (a zone entry and a
  roster-block start included).
\<close>

theorem time_window_filter_first:
  assumes "matchLine line = Some (tsStr, content)"
    and "parseEQDate hostUTC tsStr = Some ts"
    and "dateLess ts (startTime opts) \<or> dateLess (endTime opts) ts"
  shows "processLine hostUTC opts s line = s\<lparr>lineCount := lineCount s + 1\<rparr>
       \<and> currentZone (processLine hostUTC opts s line) = currentZone s
       \<and> inWhoBlock (processLine hostUTC opts s line) = inWhoBlock s
       \<and> whoBlockTime (processLine hostUTC opts s line) = whoBlockTime s
       \<and> whoPlayers (processLine hostUTC opts s line) = whoPlayers s
       \<and> attendanceMap (processLine hostUTC opts s line) = attendanceMap s
       \<and> lootEvents (processLine hostUTC opts s line) = lootEvents s"
  using assms by (simp add: processLine_def Let_def)

text \<open>
  With the window 20:00 to 21:00 a zone entry stamped 21:30 leaves the current zone at
  the zone entered before.
\<close>

theorem time_window_filter_first_witness:
  "matchLine ''[Thu Jan 22 21:30:00 2026] You have entered The Nexus.''
     = Some (''Thu Jan 22 21:30:00 2026'', ''You have entered The Nexus.'')
   \<and> parseEQDate id ''Thu Jan 22 21:30:00 2026'' = Some (Valid 1769117400000)
   \<and> dateLess (Valid 1769115600000) (Valid 1769117400000)
   \<and> currentZone (processLine id
        \<lparr>characterName = None, startTime = Valid 1769112000000, endTime = Valid 1769115600000,
         zones = [''fungus'']\<rparr>
        (batchInit\<lparr>currentZone := Some ''The Fungus Grove''\<rparr>)
        ''[Thu Jan 22 21:30:00 2026] You have entered The Nexus.'') = Some ''The Fungus Grove''"
proof -
  have m: "matchLine ''[Thu Jan 22 21:30:00 2026] You have entered The Nexus.''
     = Some (''Thu Jan 22 21:30:00 2026'', ''You have entered The Nexus.'')" by code_simp
  have p: "parseEQDate id ''Thu Jan 22 21:30:00 2026'' = Some (Valid 1769117400000)"
    by code_simp
  have d: "dateLess (Valid 1769117400000)
             (startTime \<lparr>characterName = None, startTime = Valid 1769112000000,
                endTime = Valid 1769115600000, zones = [''fungus'']\<rparr>)
         \<or> dateLess (endTime \<lparr>characterName = None, startTime = Valid 1769112000000,
                endTime = Valid 1769115600000, zones = [''fungus'']\<rparr>)
             (Valid 1769117400000)"
    by (simp add: dateLess_def timeOf_def)
  show ?thesis
    using m p d
      time_window_filter_first [OF m p d, of "batchInit\<lparr>currentZone := Some ''The Fungus Grove''\<rparr>"]
    by (simp add: dateLess_def timeOf_def)
qed

text \<open>
  The consequence the claim names: the loot taken at 20:50, after the zone entry stamped
  outside the window, is attributed to the zone entered inside the window.
\<close>

lemma loot_attributed_to_stale_zone:
  "map zone (loot (parseLog id
      \<lparr>characterName = Some ''Lyri'', startTime = Valid 1769112000000,
       endTime = Valid 1769115600000, zones = [''fungus'']\<rparr>
      [''[Thu Jan 22 20:10:00 2026] You have entered The Fungus Grove.'',
       ''[Thu Jan 22 21:30:00 2026] You have entered The Nexus.'',
       ''[Thu Jan 22 20:50:00 2026] --You have looted a Shiknar Ichor.--'']))
   = [Some ''The Fungus Grove'']"
  by code_simp

section \<open>Self-loot\<close>

lemma live_self_loot_ignored:
  assumes "\<not> truthy (characterName opts)"
    and "matchLine line = Some (tsStr, content)"
    and "matchSelfLoot content = Some item"
    and "liveLine opts w line = Inr w'"
  shows "w' = w"
  using assms
  by (auto simp: liveLine_def liveClassify_def liveLootLine_def liveWhoLine_def lootOf_no_character
        selfLoot_not_zoneEntry selfLoot_not_whoStart selfLoot_not_whoLine
        split: sum.splits option.splits if_splits)

lemma auto_self_loot_ignored:
  assumes "\<not> truthy (characterName opts)"
    and "matchLine line = Some (tsStr, content)"
    and "matchSelfLoot content = Some item"
    and "autoLine opts s line = Inr s'"
  shows "allLoot s' = allLoot s"
  using assms
  by (auto simp: autoLine_def autoClassify_def autoLootLine_def autoWhoLine_def lootOf_no_character allLoot_def
        selfLoot_not_zoneEntry selfLoot_not_whoStart selfLoot_not_whoLine Let_def
        concat_sessLoot_mapAdjust getSession_loot
        split: sum.splits option.splits if_splits)

text \<open>
  Claim C10, as amended. In \<open>parseLog\<close> a self-loot line inside the time window, read
  while no roster block is open and the current zone matches the filters, appends a loot
  event whose player name is the \<open>characterName\<close> given, \<open>null\<close> included. In
  \<open>autoParseLog\<close> and in the watcher a self-loot line adds no loot event when
  \<open>characterName\<close> is \<open>null\<close> or empty (the watcher's state does not change at all).
\<close>

theorem self_loot_player_name:
  assumes "matchLine line = Some (tsStr, content)"
    and "matchSelfLoot content = Some item"
  shows "(parseEQDate hostUTC tsStr = Some ts
          \<and> \<not> dateLess ts (startTime opts) \<and> \<not> dateLess (endTime opts) ts
          \<and> \<not> inWhoBlock s
          \<and> zoneMatchesFilters (currentZone s) (map normalizeZone (zones opts))
          \<longrightarrow> lootEvents (processLine hostUTC opts s line) = lootEvents s @
                [\<lparr>playerName = characterName opts, itemName = item, timestamp = ts,
                  zone = currentZone s\<rparr>])
       \<and> (\<not> truthy (characterName aopts) \<and> autoLine aopts a line = Inr a'
          \<longrightarrow> allLoot a' = allLoot a)
       \<and> (\<not> truthy (characterName wopts) \<and> liveLine wopts w line = Inr w'
          \<longrightarrow> w' = w)"
proof -
  have "parseEQDate hostUTC tsStr = Some ts
          \<and> \<not> dateLess ts (startTime opts) \<and> \<not> dateLess (endTime opts) ts
          \<and> \<not> inWhoBlock s
          \<and> zoneMatchesFilters (currentZone s) (map normalizeZone (zones opts))
          \<longrightarrow> lootEvents (processLine hostUTC opts s line) = lootEvents s @
                [\<lparr>playerName = characterName opts, itemName = item, timestamp = ts,
                  zone = currentZone s\<rparr>]"
    using assms
    by (simp add: processLine_def Let_def classify_def lootLine_def selfLoot_not_zoneEntry
          selfLoot_not_whoStart)
  moreover have "\<not> truthy (characterName aopts) \<and> autoLine aopts a line = Inr a'
          \<longrightarrow> allLoot a' = allLoot a"
    using assms auto_self_loot_ignored by blast
  moreover have "\<not> truthy (characterName wopts) \<and> liveLine wopts w line = Inr w'
          \<longrightarrow> w' = w"
    using assms live_self_loot_ignored by blast
  ultimately show ?thesis by blast
qed

theorem self_loot_player_name_witness:
  "matchLine ''[Thu Jan 22 20:50:00 2026] --You have looted a Shiknar Ichor.--''
     = Some (''Thu Jan 22 20:50:00 2026'', ''--You have looted a Shiknar Ichor.--'')
   \<and> matchSelfLoot ''--You have looted a Shiknar Ichor.--'' = Some ''Shiknar Ichor''
   \<and> lootEvents (processLine id
        \<lparr>characterName = None, startTime = Valid 1769112000000, endTime = Valid 1769115600000,
         zones = [''fungus'']\<rparr>
        (batchInit\<lparr>currentZone := Some ''The Fungus Grove''\<rparr>)
        ''[Thu Jan 22 20:50:00 2026] --You have looted a Shiknar Ichor.--'')
      = [\<lparr>playerName = None, itemName = ''Shiknar Ichor'', timestamp = Valid 1769115000000,
          zone = Some ''The Fungus Grove''\<rparr>]
   \<and> liveLine
        \<lparr>characterName = None, timezone = fixedOffsetZone 0, approvedZones = Some [''fungus''],
         raidDaysOpt = Some [4], raidStartOpt = Some 20, raidEndOpt = Some 21\<rparr>
        (watcherInit\<lparr>currentZone := Some ''The Fungus Grove''\<rparr>)
        ''[Thu Jan 22 20:50:00 2026] --You have looted a Shiknar Ichor.--''
      = Inr (watcherInit\<lparr>currentZone := Some ''The Fungus Grove''\<rparr>)"
proof -
  have m: "matchLine ''[Thu Jan 22 20:50:00 2026] --You have looted a Shiknar Ichor.--''
     = Some (''Thu Jan 22 20:50:00 2026'', ''--You have looted a Shiknar Ichor.--'')"
    by code_simp
  have l: "matchSelfLoot ''--You have looted a Shiknar Ichor.--'' = Some ''Shiknar Ichor''"
    by code_simp
  have p: "parseEQDate id ''Thu Jan 22 20:50:00 2026'' = Some (Valid 1769115000000)"
    by code_simp
  have z: "zoneMatchesFilters (Some ''The Fungus Grove'') (map normalizeZone [''fungus''])"
    by code_simp
  have w: "liveLine
        \<lparr>characterName = None, timezone = fixedOffsetZone 0, approvedZones = Some [''fungus''],
         raidDaysOpt = Some [4], raidStartOpt = Some 20, raidEndOpt = Some 21\<rparr>
        (watcherInit\<lparr>currentZone := Some ''The Fungus Grove''\<rparr>)
        ''[Thu Jan 22 20:50:00 2026] --You have looted a Shiknar Ichor.--''
      = Inr (watcherInit\<lparr>currentZone := Some ''The Fungus Grove''\<rparr>)"
    by code_simp
  show ?thesis
    using m l w
      self_loot_player_name [OF m l, of id "Valid 1769115000000"
        "\<lparr>characterName = None, startTime = Valid 1769112000000,
          endTime = Valid 1769115600000, zones = [''fungus'']\<rparr>"
        "batchInit\<lparr>currentZone := Some ''The Fungus Grove''\<rparr>"]
      p z
    by (simp add: dateLess_def timeOf_def batchInit_def)
qed

text \<open>
  The claim as stated fails inside an open roster block. The block below never ends (its
  last line is not a footer the parser knows), the current zone matches the filter, and
  the self-loot line is dropped, with or without a character name.
\<close>

theorem self_loot_dropped_in_open_block:
  "zoneMatchesFilters (Some ''The Fungus Grove'') (map normalizeZone [''fungus''])
   \<and> loot (parseLog id
      \<lparr>characterName = Some ''Lyri'', startTime = Valid 1769112000000,
       endTime = Valid 1769115600000, zones = [''fungus'']\<rparr>
      [''[Thu Jan 22 20:10:00 2026] You have entered The Fungus Grove.'',
       ''[Thu Jan 22 20:11:00 2026] Players on EverQuest:'',
       ''[Thu Jan 22 20:11:00 2026] [60 Virtuoso] Lyri (Vah Shir) <Intervention>'',
       ''[Thu Jan 22 20:11:00 2026] There is 1 player in Fungus Grove.'',
       ''[Thu Jan 22 20:50:00 2026] --You have looted a Shiknar Ichor.--'']) = []"
  by code_simp

section \<open>Live tail driver\<close>

text \<open>
  What the watcher does keep of the claim: on the decoded text the carry-over is exact,
  and two reads leave the watcher as one read of both chunks does wherever the bytes of
  the second chunk decode after those of the first as they do on their own, as after a
  first chunk of bytes below 128.
\<close>

lemma reads_of_ascii_compose:
  assumes "offset w = length base" and "list_all (\<lambda>c. (of_char c :: int) < 128) a"
  shows "readNew opts (Some (base @ a @ b)) w
     = (case readNew opts (Some (base @ a)) w of
          None \<Rightarrow> None
        | Some (Inl e) \<Rightarrow> Some (Inl e)
        | Some (Inr w1) \<Rightarrow> readNew opts (Some (base @ a @ b)) w1)"
proof -
  have "utf8Decode (a @ b) = utf8Decode a @ utf8Decode b"
    using utf8Decode_ascii [OF assms(2), of b] utf8Decode_ascii [OF assms(2), of "[]"]
    by (simp add: utf8Decode_def)
  with assms(1) show ?thesis by (rule readNew_two_reads)
qed

text \<open>
  Claim C8 fails on the code where the boundary between two reads falls inside a
  character of more than one byte: each read decodes its bytes alone. The first write
  below ends with the first byte of \<open>0xC3 0xA9\<close> (the letter e with an acute accent),
  the second write starts with the second byte. The first read classifies the zone-entry
  line and keeps the partial line, whose last code unit is the replacement character
  \<open>0xFFFD\<close>; the line that the second read completes and hands to \<open>_processLine\<close> has
  two replacement characters where the line of the concatenated text has the letter.
  Read at once, the two writes give a loot event for the item with the letter in its
  name.
\<close>

theorem split_character_not_reassembled:
  "readNew
     \<lparr>characterName = None, timezone = fixedOffsetZone 0, approvedZones = Some [''The Deep''],
      raidDaysOpt = None, raidStartOpt = None, raidEndOpt = None\<rparr>
     (Some (''[Wed Jan 21 14:00:00 2026] You have entered The Deep.'' @ [CHR 0x0A]
            @ ''[Wed Jan 21 14:05:00 2026] --Bob has looted a Caf'' @ [CHR 0xC3]))
     watcherInit
   = Some (Inr (watcherInit\<lparr>currentZone := Some ''The Deep'', liveZones := [''The Deep''],
            emitted := [ZoneEvent ''The Deep'' ''2026-01-21T14:00:00.000Z''],
            offset := 104,
            pendingChunk :=
              unitsOf ''[Wed Jan 21 14:05:00 2026] --Bob has looted a Caf'' @ [65533]\<rparr>))
   \<and> completeLines
         ((unitsOf ''[Wed Jan 21 14:05:00 2026] --Bob has looted a Caf'' @ [65533])
          @ utf8Decode ([CHR 0xA9] @ '' au lait.--'' @ [CHR 0x0A]))
       = [unitsOf ''[Wed Jan 21 14:05:00 2026] --Bob has looted a Caf'' @ [65533, 65533]
          @ unitsOf '' au lait.--'']
   \<and> completeLines
         (utf8Decode
            ((''[Wed Jan 21 14:00:00 2026] You have entered The Deep.'' @ [CHR 0x0A]
              @ ''[Wed Jan 21 14:05:00 2026] --Bob has looted a Caf'' @ [CHR 0xC3])
             @ [CHR 0xA9] @ '' au lait.--'' @ [CHR 0x0A]))
       = [unitsOf ''[Wed Jan 21 14:00:00 2026] You have entered The Deep.'',
          unitsOf ''[Wed Jan 21 14:05:00 2026] --Bob has looted a Caf'' @ [233]
          @ unitsOf '' au lait.--'']
   \<and> readNew
     \<lparr>characterName = None, timezone = fixedOffsetZone 0, approvedZones = Some [''The Deep''],
      raidDaysOpt = None, raidStartOpt = None, raidEndOpt = None\<rparr>
     (Some ((''[Wed Jan 21 14:00:00 2026] You have entered The Deep.'' @ [CHR 0x0A]
              @ ''[Wed Jan 21 14:05:00 2026] --Bob has looted a Caf'' @ [CHR 0xC3])
             @ [CHR 0xA9] @ '' au lait.--'' @ [CHR 0x0A]))
     watcherInit
   = Some (Inr (watcherInit\<lparr>currentZone := Some ''The Deep'',
            lootEvents := [\<lparr>playerName = Some ''Bob'',
                             itemName = ''Caf'' @ [CHR 0xE9] @ '' au lait'',
                             timestamp = Valid 1769004300000, zone = Some ''The Deep''\<rparr>],
            offset := 117, liveZones := [''The Deep''],
            emitted := [ZoneEvent ''The Deep'' ''2026-01-21T14:00:00.000Z'',
                        LootEmitted (Some ''Bob'') (''Caf'' @ [CHR 0xE9] @ '' au lait'')
                          ''2026-01-21T14:05:00.000Z'' (Some ''The Deep'')]\<rparr>))"
  by code_simp

section \<open>Raid-window gate\<close>

text \<open>
  Claim C6. In auto-detect and live mode every accepted event passed the gate, stated
  here without the functions of the code: the day of the week and the hour are those of
  the instant in UTC, the window is the day set \<open>[0, 3, 5, 6]\<close> from 13 up to but not
  including 17 in auto-detect mode and the days and hours of the watcher's options (or
  those defaults) in live mode, and a zone is approved when the zone matcher matches it
  against the approved list.

  \<^item> Every session that \<open>autoParseLog\<close> returns holds only loot events whose instant lies
    in the window and whose zone is approved, only attendance records first and last
    seen at instants in the window, and only approved zones. The same holds of the
    watcher at its start and after every line, together with the zones of the
    attendance and loot events it emits and the instant of its open roster block.
  \<^item> The current zone of a scan is the zone of the last zone-entry line read so far:
    no roster footer changes it.
  \<^item> A loot line read after any sequence of lines is accepted exactly when its instant
    lies in the window and the zone last entered is approved, whatever rosters the lines
    before held, unless it stands inside a roster block that is still open (the block
    takes every line up to its footer); the event carries the zone last entered.
  \<^item> A start marker opens a roster block exactly when its instant lies in the window,
    and that instant is the block's; a start marker outside the window changes nothing,
    also not a block that is open. A footer read in an open block flushes the block's
    entries under the block's instant exactly when the footer's zone is approved (live
    mode), and flushes nothing when the zone is not approved or the block's instant lies
    outside the window (auto-detect mode).
\<close>

theorem raid_window_gate:
  "(autoParseLog aopts ls = Inr (sessions, n)
      \<longrightarrow> list_all (sessionPassed [0, 3, 5, 6] 13 17 APPROVED_ZONES) sessions)
   \<and> watcherPassed (orDefault (raidDaysOpt wopts) [0, 3, 5, 6])
         (orDefault (raidStartOpt wopts) 13) (orDefault (raidEndOpt wopts) 17)
         (orDefault (approvedZones wopts) []) watcherInit
   \<and> (watcherPassed (orDefault (raidDaysOpt wopts) [0, 3, 5, 6])
         (orDefault (raidStartOpt wopts) 13) (orDefault (raidEndOpt wopts) 17)
         (orDefault (approvedZones wopts) []) w
        \<and> liveLine wopts w line = Inr w'
      \<longrightarrow> watcherPassed (orDefault (raidDaysOpt wopts) [0, 3, 5, 6])
            (orDefault (raidStartOpt wopts) 13) (orDefault (raidEndOpt wopts) 17)
            (orDefault (approvedZones wopts) []) w')
   \<and> (foldE (autoLine aopts) autoInit ls = Inr s
      \<longrightarrow> currentZone s = lastZoneEntered (timezone aopts) ls)
   \<and> (foldE (liveLine wopts) watcherInit ls = Inr v
      \<longrightarrow> currentZone v = lastZoneEntered (timezone wopts) ls)
   \<and> (foldE (liveLine wopts) watcherInit ls = Inr v
        \<and> matchLine line = Some (tsStr, content)
        \<and> parseEQDateUTC (timezone wopts) tsStr = Inr (Some ts)
        \<and> matchOtherLoot content = Some (who, item)
      \<longrightarrow> (\<exists>v'. foldE (liveLine wopts) watcherInit (ls @ [line]) = Inr v'
              \<and> lootEvents v' = lootEvents v @
                   (if \<not> inWhoBlock v
                       \<and> inWindow (orDefault (raidDaysOpt wopts) [0, 3, 5, 6])
                           (orDefault (raidStartOpt wopts) 13)
                           (orDefault (raidEndOpt wopts) 17) ts
                       \<and> zoneApproved (orDefault (approvedZones wopts) [])
                           (lastZoneEntered (timezone wopts) ls)
                    then [\<lparr>playerName = Some who, itemName = item, timestamp = ts,
                           zone = lastZoneEntered (timezone wopts) ls\<rparr>]
                    else [])))
   \<and> (foldE (autoLine aopts) autoInit ls = Inr s
        \<and> matchLine line = Some (tsStr, content)
        \<and> parseEQDateUTC (timezone aopts) tsStr = Inr (Some ts)
        \<and> matchOtherLoot content = Some (who, item)
      \<longrightarrow> (\<exists>s'. foldE (autoLine aopts) autoInit (ls @ [line]) = Inr s'
              \<and> (if \<not> inWhoBlock s \<and> inWindow [0, 3, 5, 6] 13 17 ts
                     \<and> zoneApproved APPROVED_ZONES (lastZoneEntered (timezone aopts) ls)
                  then \<lparr>playerName = Some who, itemName = item, timestamp = ts,
                        zone = lastZoneEntered (timezone aopts) ls\<rparr> \<in> set (allLoot s')
                  else sessionMap s' = sessionMap s)))
   \<and> (matchLine line = Some (tsStr, whoStart)
        \<and> parseEQDateUTC (timezone wopts) tsStr = Inr (Some ts)
      \<longrightarrow> liveLine wopts w line
            = Inr (if inWindow (orDefault (raidDaysOpt wopts) [0, 3, 5, 6])
                       (orDefault (raidStartOpt wopts) 13)
                       (orDefault (raidEndOpt wopts) 17) ts
                   then w\<lparr>inWhoBlock := True, whoBlockTime := ts, whoPlayers := []\<rparr>
                   else w))
   \<and> (matchLine line = Some (tsStr, whoStart)
        \<and> parseEQDateUTC (timezone aopts) tsStr = Inr (Some ts)
      \<longrightarrow> autoLine aopts s line
            = Inr (if inWindow [0, 3, 5, 6] 13 17 ts
                   then s\<lparr>inWhoBlock := True, whoBlockTime := ts, whoPlayers := [],
                          linesRead := linesRead s + 1\<rparr>
                   else s\<lparr>linesRead := linesRead s + 1\<rparr>))
   \<and> (matchLine line = Some (tsStr, content)
        \<and> parseEQDateUTC (timezone wopts) tsStr = Inr (Some ts)
        \<and> matchWhoFooter content = Some whoZone \<and> inWhoBlock w
        \<and> liveLine wopts w line = Inr w'
      \<longrightarrow> \<not> inWhoBlock w'
          \<and> attendanceMap w'
              = (if zoneApproved (orDefault (approvedZones wopts) []) (Some whoZone)
                 then foldl (upsertLive (whoBlockTime w)) (attendanceMap w) (whoPlayers w)
                 else attendanceMap w))
   \<and> (matchLine line = Some (tsStr, content)
        \<and> parseEQDateUTC (timezone aopts) tsStr = Inr (Some ts)
        \<and> matchWhoFooter content = Some whoZone \<and> inWhoBlock s
        \<and> autoLine aopts s line = Inr s'
        \<and> \<not> (zoneApproved APPROVED_ZONES (Some whoZone)
               \<and> inWindow [0, 3, 5, 6] 13 17 (whoBlockTime s))
      \<longrightarrow> \<not> inWhoBlock s' \<and> sessionMap s' = sessionMap s)"
proof (intro conjI impI)
  show "list_all (sessionPassed [0, 3, 5, 6] 13 17 APPROVED_ZONES) sessions"
    if "autoParseLog aopts ls = Inr (sessions, n)"
    using that by (rule auto_sessions_passed)
  show "watcherPassed (orDefault (raidDaysOpt wopts) [0, 3, 5, 6])
         (orDefault (raidStartOpt wopts) 13) (orDefault (raidEndOpt wopts) 17)
         (orDefault (approvedZones wopts) []) watcherInit"
    by (rule watcherInit_passed)
  show "watcherPassed (orDefault (raidDaysOpt wopts) [0, 3, 5, 6])
            (orDefault (raidStartOpt wopts) 13) (orDefault (raidEndOpt wopts) 17)
            (orDefault (approvedZones wopts) []) w'"
    if "watcherPassed (orDefault (raidDaysOpt wopts) [0, 3, 5, 6])
         (orDefault (raidStartOpt wopts) 13) (orDefault (raidEndOpt wopts) 17)
         (orDefault (approvedZones wopts) []) w
        \<and> liveLine wopts w line = Inr w'"
    using that liveLine_passed [of wopts w line w'] by blast
  show "currentZone s = lastZoneEntered (timezone aopts) ls"
    if "foldE (autoLine aopts) autoInit ls = Inr s"
    using that by (rule auto_zone_last_entered)
  show "currentZone v = lastZoneEntered (timezone wopts) ls"
    if "foldE (liveLine wopts) watcherInit ls = Inr v"
    using that by (rule live_zone_last_entered)
  show "\<exists>v'. foldE (liveLine wopts) watcherInit (ls @ [line]) = Inr v'
              \<and> lootEvents v' = lootEvents v @
                   (if \<not> inWhoBlock v
                       \<and> inWindow (orDefault (raidDaysOpt wopts) [0, 3, 5, 6])
                           (orDefault (raidStartOpt wopts) 13)
                           (orDefault (raidEndOpt wopts) 17) ts
                       \<and> zoneApproved (orDefault (approvedZones wopts) [])
                           (lastZoneEntered (timezone wopts) ls)
                    then [\<lparr>playerName = Some who, itemName = item, timestamp = ts,
                           zone = lastZoneEntered (timezone wopts) ls\<rparr>]
                    else [])"
    if "foldE (liveLine wopts) watcherInit ls = Inr v
        \<and> matchLine line = Some (tsStr, content)
        \<and> parseEQDateUTC (timezone wopts) tsStr = Inr (Some ts)
        \<and> matchOtherLoot content = Some (who, item)"
    using that live_loot_after [of wopts ls v line tsStr content ts who item] by blast
  show "\<exists>s'. foldE (autoLine aopts) autoInit (ls @ [line]) = Inr s'
              \<and> (if \<not> inWhoBlock s \<and> inWindow [0, 3, 5, 6] 13 17 ts
                     \<and> zoneApproved APPROVED_ZONES (lastZoneEntered (timezone aopts) ls)
                  then \<lparr>playerName = Some who, itemName = item, timestamp = ts,
                        zone = lastZoneEntered (timezone aopts) ls\<rparr> \<in> set (allLoot s')
                  else sessionMap s' = sessionMap s)"
    if "foldE (autoLine aopts) autoInit ls = Inr s
        \<and> matchLine line = Some (tsStr, content)
        \<and> parseEQDateUTC (timezone aopts) tsStr = Inr (Some ts)
        \<and> matchOtherLoot content = Some (who, item)"
    using that auto_loot_after [of aopts ls s line tsStr content ts who item] by blast
  show "liveLine wopts w line
            = Inr (if inWindow (orDefault (raidDaysOpt wopts) [0, 3, 5, 6])
                       (orDefault (raidStartOpt wopts) 13)
                       (orDefault (raidEndOpt wopts) 17) ts
                   then w\<lparr>inWhoBlock := True, whoBlockTime := ts, whoPlayers := []\<rparr>
                   else w)"
    if "matchLine line = Some (tsStr, whoStart)
        \<and> parseEQDateUTC (timezone wopts) tsStr = Inr (Some ts)"
    using that live_start_marker [of line tsStr wopts ts w] by blast
  show "autoLine aopts s line
            = Inr (if inWindow [0, 3, 5, 6] 13 17 ts
                   then s\<lparr>inWhoBlock := True, whoBlockTime := ts, whoPlayers := [],
                          linesRead := linesRead s + 1\<rparr>
                   else s\<lparr>linesRead := linesRead s + 1\<rparr>)"
    if "matchLine line = Some (tsStr, whoStart)
        \<and> parseEQDateUTC (timezone aopts) tsStr = Inr (Some ts)"
    using that auto_start_marker [of line tsStr aopts ts s] by blast
  show "\<not> inWhoBlock w'"
    if "matchLine line = Some (tsStr, content)
        \<and> parseEQDateUTC (timezone wopts) tsStr = Inr (Some ts)
        \<and> matchWhoFooter content = Some whoZone \<and> inWhoBlock w
        \<and> liveLine wopts w line = Inr w'"
    using that live_footer [of line tsStr content wopts ts whoZone w w'] by blast
  show "attendanceMap w'
              = (if zoneApproved (orDefault (approvedZones wopts) []) (Some whoZone)
                 then foldl (upsertLive (whoBlockTime w)) (attendanceMap w) (whoPlayers w)
                 else attendanceMap w)"
    if "matchLine line = Some (tsStr, content)
        \<and> parseEQDateUTC (timezone wopts) tsStr = Inr (Some ts)
        \<and> matchWhoFooter content = Some whoZone \<and> inWhoBlock w
        \<and> liveLine wopts w line = Inr w'"
    using that live_footer [of line tsStr content wopts ts whoZone w w'] by blast
  show "\<not> inWhoBlock s'"
    if "matchLine line = Some (tsStr, content)
        \<and> parseEQDateUTC (timezone aopts) tsStr = Inr (Some ts)
        \<and> matchWhoFooter content = Some whoZone \<and> inWhoBlock s
        \<and> autoLine aopts s line = Inr s'
        \<and> \<not> (zoneApproved APPROVED_ZONES (Some whoZone)
               \<and> inWindow [0, 3, 5, 6] 13 17 (whoBlockTime s))"
    using that auto_footer [of line tsStr content aopts ts whoZone s s'] by blast
  show "sessionMap s' = sessionMap s"
    if "matchLine line = Some (tsStr, content)
        \<and> parseEQDateUTC (timezone aopts) tsStr = Inr (Some ts)
        \<and> matchWhoFooter content = Some whoZone \<and> inWhoBlock s
        \<and> autoLine aopts s line = Inr s'
        \<and> \<not> (zoneApproved APPROVED_ZONES (Some whoZone)
               \<and> inWindow [0, 3, 5, 6] 13 17 (whoBlockTime s))"
    using that auto_footer [of line tsStr content aopts ts whoZone s s'] by blast
qed

text \<open>
  A scan that enters The Deep, reads a roster whose footer names another zone, which is
  not approved, and then a loot line on a Wednesday at 14:05 UTC. The zone last entered
  is still The Deep, the loot event is accepted with that zone in live mode, and the
  session that auto-detect mode returns passed the gate; so did the watcher after the
  loot line. The start marker at 14:01 opens a block in both
  modes, and the footer of the unapproved zone closes it and flushes nothing.
\<close>

theorem raid_window_gate_witness:
  "foldE (liveLine
      \<lparr>characterName = None, timezone = fixedOffsetZone 0, approvedZones = Some [''The Deep''],
       raidDaysOpt = None, raidStartOpt = None, raidEndOpt = None\<rparr>) watcherInit
     [''[Wed Jan 21 14:00:00 2026] You have entered The Deep.'',
      ''[Wed Jan 21 14:01:00 2026] Players on EverQuest:'',
      ''[Wed Jan 21 14:01:00 2026] [60 Virtuoso] Lyri (Vah Shir) <Intervention>'',
      ''[Wed Jan 21 14:01:00 2026] There are 2 players in Fungus Grove.'']
   = Inr (watcherInit\<lparr>currentZone := Some ''The Deep'', whoBlockTime := Valid 1769004060000,
            whoPlayers := [\<lparr>name = ''Lyri'', level = Some (Num 60), cls = Some ''Virtuoso'',
                             race = Some ''Vah Shir'', guild = Some ''Intervention''\<rparr>],
            liveZones := [''The Deep''],
            emitted := [ZoneEvent ''The Deep'' ''2026-01-21T14:00:00.000Z'']\<rparr>)
   \<and> lastZoneEntered (fixedOffsetZone 0)
       [''[Wed Jan 21 14:00:00 2026] You have entered The Deep.'',
        ''[Wed Jan 21 14:01:00 2026] Players on EverQuest:'',
        ''[Wed Jan 21 14:01:00 2026] [60 Virtuoso] Lyri (Vah Shir) <Intervention>'',
        ''[Wed Jan 21 14:01:00 2026] There are 2 players in Fungus Grove.'']
     = Some ''The Deep''
   \<and> inWindow [0, 3, 5, 6] 13 17 (Valid 1769004300000)
   \<and> zoneApproved [''The Deep''] (Some ''The Deep'')
   \<and> \<not> zoneApproved [''The Deep''] (Some ''Fungus Grove'')
   \<and> (\<exists>v'. foldE (liveLine
          \<lparr>characterName = None, timezone = fixedOffsetZone 0,
           approvedZones = Some [''The Deep''],
           raidDaysOpt = None, raidStartOpt = None, raidEndOpt = None\<rparr>) watcherInit
         ([''[Wed Jan 21 14:00:00 2026] You have entered The Deep.'',
           ''[Wed Jan 21 14:01:00 2026] Players on EverQuest:'',
           ''[Wed Jan 21 14:01:00 2026] [60 Virtuoso] Lyri (Vah Shir) <Intervention>'',
           ''[Wed Jan 21 14:01:00 2026] There are 2 players in Fungus Grove.'']
          @ [''[Wed Jan 21 14:05:00 2026] --Bob has looted a Shiknar Ichor.--'']) = Inr v'
        \<and> lootEvents v'
            = [\<lparr>playerName = Some ''Bob'', itemName = ''Shiknar Ichor'',
                timestamp = Valid 1769004300000, zone = Some ''The Deep''\<rparr>])
   \<and> liveLine
       \<lparr>characterName = None, timezone = fixedOffsetZone 0,
        approvedZones = Some [''The Deep''],
        raidDaysOpt = None, raidStartOpt = None, raidEndOpt = None\<rparr> watcherInit
       ''[Wed Jan 21 14:01:00 2026] Players on EverQuest:''
     = Inr (watcherInit\<lparr>inWhoBlock := True, whoBlockTime := Valid 1769004060000,
              whoPlayers := []\<rparr>)
   \<and> autoLine \<lparr>characterName = None, timezone = fixedOffsetZone 0\<rparr> autoInit
       ''[Wed Jan 21 14:01:00 2026] Players on EverQuest:''
     = Inr (autoInit\<lparr>inWhoBlock := True, whoBlockTime := Valid 1769004060000,
              whoPlayers := [], linesRead := 1\<rparr>)
   \<and> attendanceMap (watcherInit\<lparr>whoBlockTime := Valid 1769004060000\<rparr>) = []
   \<and> liveLine
       \<lparr>characterName = None, timezone = fixedOffsetZone 0,
        approvedZones = Some [''The Deep''],
        raidDaysOpt = None, raidStartOpt = None, raidEndOpt = None\<rparr>
       (watcherInit\<lparr>inWhoBlock := True, whoBlockTime := Valid 1769004060000\<rparr>)
       ''[Wed Jan 21 14:01:00 2026] There are 2 players in Fungus Grove.''
     = Inr (watcherInit\<lparr>whoBlockTime := Valid 1769004060000\<rparr>)
   \<and> sessionMap (autoInit\<lparr>whoBlockTime := Valid 1769004060000, linesRead := 1\<rparr>) = []
   \<and> autoLine \<lparr>characterName = None, timezone = fixedOffsetZone 0\<rparr>
       (autoInit\<lparr>inWhoBlock := True, whoBlockTime := Valid 1769004060000\<rparr>)
       ''[Wed Jan 21 14:01:00 2026] There are 2 players in Fungus Grove.''
     = Inr (autoInit\<lparr>whoBlockTime := Valid 1769004060000, linesRead := 1\<rparr>)
   \<and> (\<exists>s'. foldE (autoLine \<lparr>characterName = None, timezone = fixedOffsetZone 0\<rparr>) autoInit
         ([''[Wed Jan 21 14:00:00 2026] You have entered The Deep.'',
           ''[Wed Jan 21 14:01:00 2026] Players on EverQuest:'',
           ''[Wed Jan 21 14:01:00 2026] [60 Virtuoso] Lyri (Vah Shir) <Intervention>'',
           ''[Wed Jan 21 14:01:00 2026] There are 2 players in Fungus Grove.'']
          @ [''[Wed Jan 21 14:05:00 2026] --Bob has looted a Shiknar Ichor.--'']) = Inr s'
        \<and> \<lparr>playerName = Some ''Bob'', itemName = ''Shiknar Ichor'',
             timestamp = Valid 1769004300000, zone = Some ''The Deep''\<rparr> \<in> set (allLoot s'))
   \<and> liveLine
       \<lparr>characterName = None, timezone = fixedOffsetZone 0,
        approvedZones = Some [''The Deep''],
        raidDaysOpt = None, raidStartOpt = None, raidEndOpt = None\<rparr>
       (watcherInit\<lparr>currentZone := Some ''The Deep''\<rparr>)
       ''[Wed Jan 21 14:05:00 2026] --Bob has looted a Shiknar Ichor.--''
     = Inr (watcherInit\<lparr>currentZone := Some ''The Deep'',
              lootEvents := [\<lparr>playerName = Some ''Bob'', itemName = ''Shiknar Ichor'',
                               timestamp = Valid 1769004300000, zone = Some ''The Deep''\<rparr>],
              emitted := [LootEmitted (Some ''Bob'') ''Shiknar Ichor''
                            ''2026-01-21T14:05:00.000Z'' (Some ''The Deep'')]\<rparr>)
   \<and> watcherPassed [0, 3, 5, 6] 13 17 [''The Deep'']
       (watcherInit\<lparr>currentZone := Some ''The Deep'',
          lootEvents := [\<lparr>playerName = Some ''Bob'', itemName = ''Shiknar Ichor'',
                           timestamp = Valid 1769004300000, zone = Some ''The Deep''\<rparr>],
          emitted := [LootEmitted (Some ''Bob'') ''Shiknar Ichor''
                        ''2026-01-21T14:05:00.000Z'' (Some ''The Deep'')]\<rparr>)
   \<and> autoParseLog \<lparr>characterName = None, timezone = fixedOffsetZone 0\<rparr>
       [''[Wed Jan 21 14:00:00 2026] You have entered The Deep.'',
        ''[Wed Jan 21 14:01:00 2026] Players on EverQuest:'',
        ''[Wed Jan 21 14:01:00 2026] [60 Virtuoso] Lyri (Vah Shir) <Intervention>'',
        ''[Wed Jan 21 14:01:00 2026] There are 2 players in Fungus Grove.'',
        ''[Wed Jan 21 14:05:00 2026] --Bob has looted a Shiknar Ichor.--'']
     = Inr ([\<lparr>date = ''2026-01-21'', dayName = ''Wednesday'', roster = [],
              sessLoot = [\<lparr>playerName = Some ''Bob'', itemName = ''Shiknar Ichor'',
                            timestamp = Valid 1769004300000, zone = Some ''The Deep''\<rparr>],
              sessZones = [''The Deep''], sessFirstSeen = Valid 1769004300000,
              sessLastSeen = Valid 1769004300000\<rparr>], 5)
   \<and> list_all (sessionPassed [0, 3, 5, 6] 13 17 APPROVED_ZONES)
       [\<lparr>date = ''2026-01-21'', dayName = ''Wednesday'', roster = [],
         sessLoot = [\<lparr>playerName = Some ''Bob'', itemName = ''Shiknar Ichor'',
                       timestamp = Valid 1769004300000, zone = Some ''The Deep''\<rparr>],
         sessZones = [''The Deep''], sessFirstSeen = Valid 1769004300000,
         sessLastSeen = Valid 1769004300000\<rparr>]"
proof -
  define wopts where "wopts =
    \<lparr>characterName = None, timezone = fixedOffsetZone 0, approvedZones = Some [''The Deep''],
     raidDaysOpt = None, raidStartOpt = None, raidEndOpt = None\<rparr>"
  define aopts where "aopts = \<lparr>characterName = None, timezone = fixedOffsetZone 0\<rparr>"
  define lns where "lns =
    [''[Wed Jan 21 14:00:00 2026] You have entered The Deep.'',
     ''[Wed Jan 21 14:01:00 2026] Players on EverQuest:'',
     ''[Wed Jan 21 14:01:00 2026] [60 Virtuoso] Lyri (Vah Shir) <Intervention>'',
     ''[Wed Jan 21 14:01:00 2026] There are 2 players in Fungus Grove.'']"
  define ln where "ln = ''[Wed Jan 21 14:05:00 2026] --Bob has looted a Shiknar Ichor.--''"
  define v where "v = watcherInit\<lparr>currentZone := Some ''The Deep'',
            whoBlockTime := Valid 1769004060000,
            whoPlayers := [\<lparr>name = ''Lyri'', level = Some (Num 60), cls = Some ''Virtuoso'',
                             race = Some ''Vah Shir'', guild = Some ''Intervention''\<rparr>],
            liveZones := [''The Deep''],
            emitted := [ZoneEvent ''The Deep'' ''2026-01-21T14:00:00.000Z'']\<rparr>"
  define ev where "ev = \<lparr>playerName = Some ''Bob'', itemName = ''Shiknar Ichor'',
                timestamp = Valid 1769004300000, zone = Some ''The Deep''\<rparr>"
  define u0 where "u0 = watcherInit\<lparr>currentZone := Some ''The Deep''\<rparr>"
  define u where "u = watcherInit\<lparr>currentZone := Some ''The Deep'',
          lootEvents := [ev],
          emitted := [LootEmitted (Some ''Bob'') ''Shiknar Ichor''
                        ''2026-01-21T14:05:00.000Z'' (Some ''The Deep'')]\<rparr>"
  define sess where "sess =
    [\<lparr>date = ''2026-01-21'', dayName = ''Wednesday'', roster = ([] :: participant list),
      sessLoot = [ev], sessZones = [''The Deep''], sessFirstSeen = Valid 1769004300000,
      sessLastSeen = Valid 1769004300000\<rparr>]"
  have e1: "foldE (liveLine wopts) watcherInit lns = Inr v"
    unfolding wopts_def lns_def v_def by code_simp
  have e2: "\<not> inWhoBlock v" by (simp add: v_def watcherInit_def)
  have e3: "matchLine ln = Some (''Wed Jan 21 14:05:00 2026'', ''--Bob has looted a Shiknar Ichor.--'')"
    unfolding ln_def by code_simp
  have e4: "parseEQDateUTC (timezone wopts) ''Wed Jan 21 14:05:00 2026''
              = Inr (Some (Valid 1769004300000))"
    unfolding wopts_def by code_simp
  have e5: "matchOtherLoot ''--Bob has looted a Shiknar Ichor.--'' = Some (''Bob'', ''Shiknar Ichor'')"
    by code_simp
  have z: "lastZoneEntered (fixedOffsetZone 0) lns = Some ''The Deep''"
    unfolding lns_def by code_simp
  have g1: "inWindow [0, 3, 5, 6] 13 17 (Valid 1769004300000)" by code_simp
  have g2: "zoneApproved [''The Deep''] (Some ''The Deep'')" by code_simp
  have g3: "\<not> zoneApproved [''The Deep''] (Some ''Fungus Grove'')" by code_simp
  have a: "autoParseLog aopts (lns @ [ln]) = Inr (sess, 5)"
    unfolding aopts_def lns_def ln_def sess_def ev_def by code_simp
  have r: "liveLine wopts u0 ln = Inr u"
    unfolding wopts_def ln_def u0_def u_def ev_def by code_simp
  have r0: "watcherPassed [0, 3, 5, 6] 13 17 [''The Deep''] u0"
    by (simp add: watcherPassed_def u0_def watcherInit_def)
  define st where "st = ''[Wed Jan 21 14:01:00 2026] Players on EverQuest:''"
  define ft where "ft = ''[Wed Jan 21 14:01:00 2026] There are 2 players in Fungus Grove.''"
  define wb where
    "wb = watcherInit\<lparr>inWhoBlock := True, whoBlockTime := Valid 1769004060000\<rparr>"
  define wc where "wc = watcherInit\<lparr>whoBlockTime := Valid 1769004060000\<rparr>"
  define sb where "sb = autoInit\<lparr>inWhoBlock := True, whoBlockTime := Valid 1769004060000\<rparr>"
  define sc where "sc = autoInit\<lparr>whoBlockTime := Valid 1769004060000, linesRead := 1\<rparr>"
  define sv where "sv = autoInit\<lparr>currentZone := Some ''The Deep'',
            whoBlockTime := Valid 1769004060000,
            whoPlayers := [\<lparr>name = ''Lyri'', level = Some (Num 60), cls = Some ''Virtuoso'',
                             race = Some ''Vah Shir'', guild = Some ''Intervention''\<rparr>],
            linesRead := 4\<rparr>"
  have m1: "matchLine st = Some (''Wed Jan 21 14:01:00 2026'', whoStart)"
    unfolding st_def by code_simp
  have m2: "parseEQDateUTC (fixedOffsetZone 0) ''Wed Jan 21 14:01:00 2026''
              = Inr (Some (Valid 1769004060000))"
    by code_simp
  have m3: "inWindow [0, 3, 5, 6] 13 17 (Valid 1769004060000)" by code_simp
  have f1: "matchLine ft
              = Some (''Wed Jan 21 14:01:00 2026'', ''There are 2 players in Fungus Grove.'')"
    unfolding ft_def by code_simp
  have f2: "matchWhoFooter ''There are 2 players in Fungus Grove.'' = Some ''Fungus Grove''"
    by code_simp
  have f3: "liveLine wopts wb ft = Inr wc"
    unfolding wopts_def wb_def wc_def ft_def by code_simp
  have f4: "autoLine aopts sb ft = Inr sc"
    unfolding aopts_def sb_def sc_def ft_def by code_simp
  have f5: "\<not> zoneApproved APPROVED_ZONES (Some ''Fungus Grove'')" by code_simp
  have f6: "inWhoBlock wb" "inWhoBlock sb" by (simp_all add: wb_def sb_def)
  have s1: "foldE (autoLine aopts) autoInit lns = Inr sv"
    unfolding aopts_def lns_def sv_def by code_simp
  have s2: "\<not> inWhoBlock sv" by (simp add: sv_def autoInit_def)
  have s3: "zoneApproved APPROVED_ZONES (Some ''The Deep'')" by code_simp
  have tz: "timezone wopts = fixedOffsetZone 0" by (simp add: wopts_def)
  have ta: "timezone aopts = fixedOffsetZone 0" by (simp add: aopts_def)
  have d: "orDefault (raidDaysOpt wopts) [0, 3, 5, 6] = [0, 3, 5, 6]"
    "orDefault (raidStartOpt wopts) 13 = 13" "orDefault (raidEndOpt wopts) 17 = 17"
    "orDefault (approvedZones wopts) [] = [''The Deep'']"
    by (simp_all add: wopts_def orDefault_def)
  note t1 = raid_window_gate [where aopts = aopts and ls = "lns @ [ln]" and sessions = sess
      and n = 5]
  note t2 = raid_window_gate [where wopts = wopts and ls = lns and v = v and line = ln
      and tsStr = "''Wed Jan 21 14:05:00 2026''"
      and content = "''--Bob has looted a Shiknar Ichor.--''"
      and ts = "Valid 1769004300000" and who = "''Bob''" and item = "''Shiknar Ichor''"]
  note t3 = raid_window_gate [where wopts = wopts and w = u0 and line = ln and w' = u]
  note t4 = raid_window_gate [where wopts = wopts and aopts = aopts and w = watcherInit
      and s = autoInit and line = st and tsStr = "''Wed Jan 21 14:01:00 2026''"
      and ts = "Valid 1769004060000"]
  note t5 = raid_window_gate [where wopts = wopts and aopts = aopts and w = wb and w' = wc
      and s = sb and s' = sc and line = ft and tsStr = "''Wed Jan 21 14:01:00 2026''"
      and content = "''There are 2 players in Fungus Grove.''"
      and ts = "Valid 1769004060000" and whoZone = "''Fungus Grove''"]
  note t6 = raid_window_gate [where aopts = aopts and ls = lns and s = sv and line = ln
      and tsStr = "''Wed Jan 21 14:05:00 2026''"
      and content = "''--Bob has looted a Shiknar Ichor.--''"
      and ts = "Valid 1769004300000" and who = "''Bob''" and item = "''Shiknar Ichor''"]
  have k1: "liveLine wopts watcherInit st
      = Inr (if inWindow (orDefault (raidDaysOpt wopts) [0, 3, 5, 6])
                 (orDefault (raidStartOpt wopts) 13) (orDefault (raidEndOpt wopts) 17)
                 (Valid 1769004060000)
             then watcherInit\<lparr>inWhoBlock := True, whoBlockTime := Valid 1769004060000,
                    whoPlayers := []\<rparr>
             else watcherInit)"
    using t4 m1 m2 tz by simp
  have k2: "autoLine aopts autoInit st
      = Inr (if inWindow [0, 3, 5, 6] 13 17 (Valid 1769004060000)
             then autoInit\<lparr>inWhoBlock := True, whoBlockTime := Valid 1769004060000,
                    whoPlayers := [], linesRead := linesRead autoInit + 1\<rparr>
             else autoInit\<lparr>linesRead := linesRead autoInit + 1\<rparr>)"
    using t4 m1 m2 ta by simp
  have k3: "attendanceMap wc
      = (if zoneApproved (orDefault (approvedZones wopts) []) (Some ''Fungus Grove'')
         then foldl (upsertLive (whoBlockTime wb)) (attendanceMap wb) (whoPlayers wb)
         else attendanceMap wb)"
    using t5 f1 f2 f3 f6(1) m2 tz by simp
  have k4: "sessionMap sc = sessionMap sb"
    using t5 f1 f2 f4 f5 f6(2) m2 ta by simp
  have k5: "\<exists>s'. foldE (autoLine aopts) autoInit (lns @ [ln]) = Inr s'
          \<and> (if \<not> inWhoBlock sv \<and> inWindow [0, 3, 5, 6] 13 17 (Valid 1769004300000)
                 \<and> zoneApproved APPROVED_ZONES (lastZoneEntered (timezone aopts) lns)
              then \<lparr>playerName = Some ''Bob'', itemName = ''Shiknar Ichor'',
                    timestamp = Valid 1769004300000,
                    zone = lastZoneEntered (timezone aopts) lns\<rparr> \<in> set (allLoot s')
              else sessionMap s' = sessionMap sv)"
    using t6 s1 e3 e4 [unfolded tz] e5 ta by simp
  have j1: "liveLine wopts watcherInit st
      = Inr (watcherInit\<lparr>inWhoBlock := True, whoBlockTime := Valid 1769004060000,
               whoPlayers := []\<rparr>)"
    using k1 m3 unfolding d by simp
  have j2: "autoLine aopts autoInit st
      = Inr (autoInit\<lparr>inWhoBlock := True, whoBlockTime := Valid 1769004060000,
               whoPlayers := [], linesRead := 1\<rparr>)"
    using k2 m3 by (simp add: autoInit_def)
  have j3: "attendanceMap wc = []"
    using k3 g3 unfolding d by (simp add: wb_def watcherInit_def)
  have j4: "sessionMap sc = []" using k4 by (simp add: sb_def autoInit_def)
  have j5: "\<exists>s'. foldE (autoLine aopts) autoInit (lns @ [ln]) = Inr s' \<and> ev \<in> set (allLoot s')"
    using k5 s2 g1 s3 unfolding ta z by (simp add: ev_def)
  have p: "list_all (sessionPassed [0, 3, 5, 6] 13 17 APPROVED_ZONES) sess"
    using t1 a by blast
  have "watcherPassed (orDefault (raidDaysOpt wopts) [0, 3, 5, 6])
         (orDefault (raidStartOpt wopts) 13) (orDefault (raidEndOpt wopts) 17)
         (orDefault (approvedZones wopts) []) u"
    using t3 r r0 unfolding d by blast
  then have q: "watcherPassed [0, 3, 5, 6] 13 17 [''The Deep''] u"
    unfolding d .
  have "\<exists>v'. foldE (liveLine wopts) watcherInit (lns @ [ln]) = Inr v'
          \<and> lootEvents v' = lootEvents v @
               (if \<not> inWhoBlock v
                   \<and> inWindow (orDefault (raidDaysOpt wopts) [0, 3, 5, 6])
                     (orDefault (raidStartOpt wopts) 13) (orDefault (raidEndOpt wopts) 17)
                     (Valid 1769004300000)
                   \<and> zoneApproved (orDefault (approvedZones wopts) [])
                       (lastZoneEntered (timezone wopts) lns)
                then [\<lparr>playerName = Some ''Bob'', itemName = ''Shiknar Ichor'',
                       timestamp = Valid 1769004300000,
                       zone = lastZoneEntered (timezone wopts) lns\<rparr>]
                else [])"
    using t2 e1 e3 e4 e5 by blast
  then have l: "\<exists>v'. foldE (liveLine wopts) watcherInit (lns @ [ln]) = Inr v'
          \<and> lootEvents v' = [ev]"
    unfolding d tz z using g1 g2 e2 by (simp add: v_def watcherInit_def ev_def)
  show ?thesis
    using e1 z g1 g2 g3 l j1 j2 j3 f3 j4 f4 j5 r q a p
    unfolding wopts_def aopts_def lns_def ln_def v_def u0_def u_def ev_def sess_def
      st_def ft_def wb_def wc_def sb_def sc_def
    by (intro conjI) simp_all
qed

section \<open>Aborted roster blocks\<close>

text \<open>
  Claim C3, as amended. A roster block opened by a start marker (inside the time window
  in batch mode, inside the raid window in auto-detect and live mode) and interrupted,
  before any footer line, by a zone-entry line that the scanner classifies (any zone-entry
  line in auto-detect and live mode; in batch mode one whose timestamp lies inside the
  time window) contributes nothing: the scan yields the attendance and the loot that it
  yields with the block's lines removed. In \<open>parseLog\<close> the attendance and loot lists are
  equal; \<open>autoParseLog\<close>, where it returns, returns the same sessions; the watcher ends
  with the same attendance map, loot list and published events.
\<close>

theorem aborted_block_contributes_nothing:
  assumes "matchLine start = Some (ts0, whoStart)"
    and "\<forall>l \<in> set body. \<not> isFooterLine l \<and> \<not> isZoneEntryLine l"
    and "matchLine z = Some (tsz, cz)"
    and "matchZoneEntry cz = Some zn"
  shows "(parseEQDate h ts0 = Some t0
          \<and> \<not> dateLess t0 (startTime bopts) \<and> \<not> dateLess (endTime bopts) t0
          \<and> parseEQDate h tsz = Some tz
          \<and> \<not> dateLess tz (startTime bopts) \<and> \<not> dateLess (endTime bopts) tz
        \<longrightarrow> attendance (parseLog h bopts (pre @ start # body @ z # rest))
              = attendance (parseLog h bopts (pre @ z # rest))
            \<and> loot (parseLog h bopts (pre @ start # body @ z # rest))
              = loot (parseLog h bopts (pre @ z # rest)))
       \<and> (parseEQDateUTC (timezone aopts) ts0 = Inr (Some u0) \<and> isInRaidWindow u0 = Inr True
          \<and> parseEQDateUTC (timezone aopts) tsz = Inr (Some uz)
          \<and> autoParseLog aopts (pre @ start # body @ z # rest) = Inr (sessions, n)
        \<longrightarrow> (\<exists>n'. autoParseLog aopts (pre @ z # rest) = Inr (sessions, n')))
       \<and> (parseEQDateUTC (timezone wopts) ts0 = Inr (Some v0)
          \<and> inRaidWindow (watcherRule wopts) v0 = Inr True
          \<and> parseEQDateUTC (timezone wopts) tsz = Inr (Some vz)
          \<and> foldE (liveLine wopts) w (start # body @ z # rest) = Inr wA
        \<longrightarrow> (\<exists>wB. foldE (liveLine wopts) w (z # rest) = Inr wB
               \<and> attendanceMap wA = attendanceMap wB \<and> lootEvents wA = lootEvents wB
               \<and> emitted wA = emitted wB))"
  using batch_aborted_block [OF assms(1) _ _ _ assms(2,3,4), of h t0 bopts tz pre rest]
    auto_aborted_block [OF assms(1) _ _ assms(2,3,4), of aopts u0 uz pre rest sessions n]
    live_aborted_block [OF assms(1) _ _ assms(2,3,4), of wopts v0 vz w rest wA]
  by blast

text \<open>
  A block with one entry, a zone entry one second later, then a footer line: with or
  without the block the batch scan records nobody.
\<close>

theorem aborted_block_contributes_nothing_witness:
  "attendance (parseLog id
      \<lparr>characterName = None, startTime = Valid 1769112000000, endTime = Valid 1769115600000,
       zones = [''fungus'']\<rparr>
      ([] @ ''[Thu Jan 22 20:54:27 2026] Players on EverQuest:''
        # [''[Thu Jan 22 20:54:27 2026] [60 Virtuoso] Lyri (Vah Shir) <Intervention>'']
        @ ''[Thu Jan 22 20:54:28 2026] You have entered The Nexus.''
        # [''[Thu Jan 22 20:54:29 2026] There are 2 players in Fungus Grove.'']))
     = attendance (parseLog id
      \<lparr>characterName = None, startTime = Valid 1769112000000, endTime = Valid 1769115600000,
       zones = [''fungus'']\<rparr>
      ([] @ ''[Thu Jan 22 20:54:28 2026] You have entered The Nexus.''
        # [''[Thu Jan 22 20:54:29 2026] There are 2 players in Fungus Grove.'']))
   \<and> attendance (parseLog id
      \<lparr>characterName = None, startTime = Valid 1769112000000, endTime = Valid 1769115600000,
       zones = [''fungus'']\<rparr>
      ([] @ ''[Thu Jan 22 20:54:28 2026] You have entered The Nexus.''
        # [''[Thu Jan 22 20:54:29 2026] There are 2 players in Fungus Grove.''])) = []"
proof -
  have s: "matchLine ''[Thu Jan 22 20:54:27 2026] Players on EverQuest:''
             = Some (''Thu Jan 22 20:54:27 2026'', whoStart)" by code_simp
  have b: "\<forall>l \<in> set [''[Thu Jan 22 20:54:27 2026] [60 Virtuoso] Lyri (Vah Shir) <Intervention>''].
             \<not> isFooterLine l \<and> \<not> isZoneEntryLine l" by code_simp
  have z: "matchLine ''[Thu Jan 22 20:54:28 2026] You have entered The Nexus.''
             = Some (''Thu Jan 22 20:54:28 2026'', ''You have entered The Nexus.'')" by code_simp
  have n: "matchZoneEntry ''You have entered The Nexus.'' = Some ''The Nexus''" by code_simp
  have p0: "parseEQDate id ''Thu Jan 22 20:54:27 2026'' = Some (Valid 1769115267000)"
    by code_simp
  have pz: "parseEQDate id ''Thu Jan 22 20:54:28 2026'' = Some (Valid 1769115268000)"
    by code_simp
  have e: "attendance (parseLog id
      \<lparr>characterName = None, startTime = Valid 1769112000000, endTime = Valid 1769115600000,
       zones = [''fungus'']\<rparr>
      ([] @ ''[Thu Jan 22 20:54:28 2026] You have entered The Nexus.''
        # [''[Thu Jan 22 20:54:29 2026] There are 2 players in Fungus Grove.''])) = []"
    by code_simp
  show ?thesis
    using e p0 pz
      aborted_block_contributes_nothing [OF s b z n, of id "Valid 1769115267000"
        "\<lparr>characterName = None, startTime = Valid 1769112000000,
          endTime = Valid 1769115600000, zones = [''fungus'']\<rparr>"
        "Valid 1769115268000" "[]"
        "[''[Thu Jan 22 20:54:29 2026] There are 2 players in Fungus Grove.'']"]
    by (simp add: dateLess_def timeOf_def)
qed

text \<open>
  The claim as stated fails in batch mode: the zone-entry line below stands between the
  entry and the footer of the block, but its timestamp (21:30) lies after the end of the
  window (21:00), so the scanner skips it, the block stays open, and the footer flushes
  the entry into the attendance.
\<close>

theorem block_survives_zone_entry_outside_window:
  "isZoneEntryLine ''[Thu Jan 22 21:30:00 2026] You have entered The Nexus.''
   \<and> map name (attendance (parseLog id
      \<lparr>characterName = None, startTime = Valid 1769112000000, endTime = Valid 1769115600000,
       zones = [''fungus'']\<rparr>
      [''[Thu Jan 22 20:54:27 2026] Players on EverQuest:'',
       ''[Thu Jan 22 20:54:27 2026] [60 Virtuoso] Lyri (Vah Shir) <Intervention>'',
       ''[Thu Jan 22 21:30:00 2026] You have entered The Nexus.'',
       ''[Thu Jan 22 20:54:28 2026] There are 2 players in Fungus Grove.''])) = [''Lyri'']"
  by code_simp


end
